theory Spec2Isabelle
  imports Main
begin

section \<open>Values, JSON and property keys\<close>

text \<open>
  Modelled from the spec: the type \<open>Value\<close> is imported from \<open>../types\<close>, which is not among
  the sources. The spec (section 3) gives it as the three symbols 0, 1 and \<open>?\<close>.
\<close>

datatype Value = V0 | V1 | VQ

text \<open>
  What \<open>req.body\<close> can carry after \<open>express.json()\<close>: any JSON value, and \<open>undefined\<close> for a
  field that is absent. A number is \<open>JNum i\<close> if it is an integer \<open>i\<close> of magnitude at most
  \<open>2^53\<close> (up to there a JavaScript number holds every integer exactly), and
  \<open>JOtherNumber s\<close> otherwise, \<open>s\<close> being the string JavaScript prints for it (\<open>1.5\<close>,
  \<open>1e+21\<close>, \<open>Infinity\<close>): such a number is none of 0, 1 and 2, and its string is all the
  source uses of it.
\<close>

datatype json =
    JUndefined
  | JNull
  | JBool bool
  | JNum int
  | JOtherNumber string
  | JStr string
  | JArr "json list"
  | JObj "(string \<times> json) list"

text \<open>The wire encoding of \<open>state.x\<close> (\<open>JSON.stringify\<close>): \<open>null\<close>, the numbers 0 and 1, the string "?".\<close>

fun value_json :: "Value option \<Rightarrow> json" where
  "value_json None = JNull"
| "value_json (Some V0) = JNum 0"
| "value_json (Some V1) = JNum 1"
| "value_json (Some VQ) = JStr ''?''"

text \<open>\<open>state.x.toString()\<close> for a value that is not \<open>null\<close>.\<close>

fun value_toString :: "Value \<Rightarrow> string" where
  "value_toString V0 = ''0''"
| "value_toString V1 = ''1''"
| "value_toString VQ = ''?''"

definition digit :: "nat \<Rightarrow> char" where
  "digit d = ''0123456789'' ! (d mod 10)"

fun decimal :: "nat \<Rightarrow> string" where
  "decimal n = (if n < 10 then [digit n] else decimal (n div 10) @ [digit (n mod 10)])"

declare decimal.simps [simp del]

text \<open>
  The decimal digits of an integer: what JavaScript prints for the number of a \<open>JNum\<close>, an
  integer of magnitude at most \<open>2^53\<close>.
\<close>

definition int_toString :: "int \<Rightarrow> string" where
  "int_toString i = (if i < 0 then CHR ''-'' # decimal (nat (- i)) else decimal (nat i))"

definition exact_limit :: int where
  "exact_limit = 2 ^ 53"

text \<open>
  The values of the model that stand for a value of the program: an integer is within the
  limit, and the string of another number is not the decimal form of such an integer (that
  number is the \<open>JNum\<close>).
\<close>

definition exact_decimal :: "string \<Rightarrow> bool" where
  "exact_decimal s = (s \<in> int_toString ` {- exact_limit .. exact_limit})"

fun json_value :: "json \<Rightarrow> bool" where
  "json_value JUndefined = True"
| "json_value JNull = True"
| "json_value (JBool b) = True"
| "json_value (JNum i) = (- exact_limit \<le> i \<and> i \<le> exact_limit)"
| "json_value (JOtherNumber s) = (\<not> exact_decimal s)"
| "json_value (JStr s) = True"
| "json_value (JArr vs) = list_all json_value vs"
| "json_value (JObj fs) = list_all (\<lambda>f. json_value (snd f)) fs"

fun join :: "string list \<Rightarrow> string" where
  "join [] = []"
| "join [s] = s"
| "join (s # t # ss) = s @ CHR '','' # join (t # ss)"

text \<open>
  The method \<open>toString\<close> of a number, a string or a boolean, and what \<open>String\<close> gives for
  \<open>undefined\<close> and \<open>null\<close>. The tallies call it as \<open>msg.value.toString()\<close> under a test that
  leaves 0, 1 and \<open>?\<close> only; arrays and objects, which are no primitive values, are converted
  by \<open>js_toString\<close> below and have the empty string here.
\<close>

fun primitive_toString :: "json \<Rightarrow> string" where
  "primitive_toString JUndefined = ''undefined''"
| "primitive_toString JNull = ''null''"
| "primitive_toString (JBool b) = (if b then ''true'' else ''false'')"
| "primitive_toString (JNum i) = int_toString i"
| "primitive_toString (JOtherNumber s) = s"
| "primitive_toString (JStr s) = s"
| "primitive_toString (JArr vs) = []"
| "primitive_toString (JObj fs) = []"

text \<open>An exception of the program is a value of the model.\<close>

datatype js_error = TypeError

text \<open>The strings of a list of conversions, or the exception if one of them threw.\<close>

fun all_strings :: "(js_error + string) list \<Rightarrow> js_error + string list" where
  "all_strings [] = Inr []"
| "all_strings (Inl err # rs) = Inl err"
| "all_strings (Inr s # rs) = (case all_strings rs of Inl err \<Rightarrow> Inl err | Inr ss \<Rightarrow> Inr (s # ss))"

text \<open>
  JavaScript's conversion of a value to a property key, as in \<open>phaseOneMessages[k]\<close>. A
  primitive value gives its string. An array joins the strings of its elements with
  commas, \<open>null\<close> and \<open>undefined\<close> elements giving the empty string. An object out of
  \<open>JSON.parse\<close> gives \<open>[object Object]\<close>, by the method \<open>toString\<close> it inherits; if it has a
  field \<open>toString\<close> of its own, that field is no function (JSON has none), the inherited
  \<open>valueOf\<close> returns the object itself, and the conversion throws a TypeError.
\<close>

fun js_toString :: "json \<Rightarrow> js_error + string"
  and js_element :: "json \<Rightarrow> js_error + string" where
  "js_toString JUndefined = Inr (primitive_toString JUndefined)"
| "js_toString JNull = Inr (primitive_toString JNull)"
| "js_toString (JBool b) = Inr (primitive_toString (JBool b))"
| "js_toString (JNum i) = Inr (primitive_toString (JNum i))"
| "js_toString (JOtherNumber s) = Inr (primitive_toString (JOtherNumber s))"
| "js_toString (JStr s) = Inr (primitive_toString (JStr s))"
| "js_toString (JArr vs) =
     (case all_strings (map js_element vs) of Inl err \<Rightarrow> Inl err | Inr ss \<Rightarrow> Inr (join ss))"
| "js_toString (JObj fs) =
     (if ''toString'' \<in> fst ` set fs then Inl TypeError else Inr ''[object Object]'')"
| "js_element JUndefined = Inr []"
| "js_element JNull = Inr []"
| "js_element (JBool b) = js_toString (JBool b)"
| "js_element (JNum i) = js_toString (JNum i)"
| "js_element (JOtherNumber s) = js_toString (JOtherNumber s)"
| "js_element (JStr s) = js_toString (JStr s)"
| "js_element (JArr vs) = js_toString (JArr vs)"
| "js_element (JObj fs) = js_toString (JObj fs)"

section \<open>Node configuration and state\<close>

text \<open>
  The parameters of \<open>node(nodeId, N, F, initialValue, isFaulty, ...)\<close>. The fields \<open>cN\<close> and
  \<open>cF\<close> are the source's \<open>N\<close> and \<open>F\<close> (single capital letters are kept free for variables).
  They are integers, so that \<open>N - F - 1\<close> and \<open>Math.floor(N / 2)\<close> are the source's also
  where they go negative: \<open>div\<close> on \<open>int\<close> rounds down, as \<open>Math.floor\<close> does.
\<close>

record config =
  nodeId :: int
  cN :: int
  cF :: int
  initialValue :: Value
  isFaulty :: bool

text \<open>
  The object \<open>state\<close>. \<open>None\<close> is JavaScript's \<open>null\<close>; \<open>st_x\<close> and \<open>st_k\<close> are the fields
  \<open>x\<close> and \<open>k\<close>.
\<close>

record nodeState =
  killed :: bool
  st_x :: "Value option"
  decided :: "bool option"
  st_k :: "nat option"

text \<open>An entry \<open>{ value, from }\<close> of a message buffer, and the body of a \<open>/message\<close> request.\<close>

record entry =
  e_value :: json
  e_from :: json

record body =
  b_phase :: json
  b_value :: json
  b_k :: json
  b_from :: json

text \<open>
  \<open>phaseOneMessages\<close> and \<open>phaseTwoMessages\<close>: objects used as dictionaries. The map holds
  their own properties, under the string each key converts to.
\<close>

type_synonym inbox = "string \<rightharpoonup> entry list"

text \<open>
  The argument \<open>phase\<close> of \<open>broadcastMessage\<close> and \<open>waitForMessages\<close>, which the source
  calls with 1 and 2 only.
\<close>

datatype phase = PhaseOne | PhaseTwo

text \<open>
  Where the driver of \<open>startConsensus\<close> is suspended: not started, at
  \<open>await Promise.all(promises)\<close> of a broadcast of the given phase, at \<open>await delay(10)\<close>
  inside \<open>waitForMessages\<close> (with its phase and its local \<open>currentK\<close>), at the \<open>await delay(10)\<close>
  that ends a round, or returned.
\<close>

datatype control =
    Idle
  | Broadcasting phase
  | Waiting phase "nat option"
  | Sleeping
  | Finished

text \<open>
  Everything the closure of \<open>node\<close> holds. \<open>outbox\<close> is not a variable of the source: it
  records, in order, the requests \<open>broadcastMessage\<close> has handed to \<open>fetch\<close>, each with the
  index of the peer it goes to.
\<close>

record node =
  state :: nodeState
  phaseOneMessages :: inbox
  phaseTwoMessages :: inbox
  consensusRunning :: bool
  pc :: control
  outbox :: "(int \<times> body) list"

definition initial :: "config \<Rightarrow> node" where
  "initial cfg =
     \<lparr> state = \<lparr> killed = False,
                 st_x = (if isFaulty cfg then None else Some (initialValue cfg)),
                 decided = (if isFaulty cfg then None else Some False),
                 st_k = (if isFaulty cfg then None else Some 0) \<rparr>,
       phaseOneMessages = Map.empty,
       phaseTwoMessages = Map.empty,
       consensusRunning = False,
       pc = Idle,
       outbox = [] \<rparr>"

section \<open>The tallies\<close>

text \<open>\<open>state.k as number\<close> used as a property key: \<open>String(null)\<close> is \<open>null\<close>.\<close>

fun round_key :: "nat option \<Rightarrow> string" where
  "round_key None = ''null''"
| "round_key (Some n) = decimal n"

text \<open>\<open>if (!messages[currentK]) messages[currentK] = []\<close>, and the read of the bucket.\<close>

definition ensure_bucket :: "inbox \<Rightarrow> string \<Rightarrow> inbox" where
  "ensure_bucket m key = (case m key of None \<Rightarrow> m(key \<mapsto> []) | Some b \<Rightarrow> m)"

definition bucket :: "inbox \<Rightarrow> string \<Rightarrow> entry list" where
  "bucket m key = (case m key of None \<Rightarrow> [] | Some b \<Rightarrow> b)"

text \<open>\<open>counts[key]++\<close> on a \<open>Record<string, number>\<close> whose key is present.\<close>

type_synonym counts = "string \<Rightarrow> nat"

definition increment :: "counts \<Rightarrow> string \<Rightarrow> counts" where
  "increment c key = c(key := c key + 1)"

definition zero_counts :: counts where
  "zero_counts = (\<lambda>key. 0)"

definition countOwnPhaseOne :: "Value option \<Rightarrow> counts \<Rightarrow> counts" where
  "countOwnPhaseOne xo c =
     (case xo of
        None \<Rightarrow> c
      | Some v \<Rightarrow> if v = V0 \<or> v = V1 then increment c (value_toString v) else c)"

definition countMessagePhaseOne :: "entry \<Rightarrow> counts \<Rightarrow> counts" where
  "countMessagePhaseOne msg c =
     (if e_value msg = JNum 0 \<or> e_value msg = JNum 1
      then increment c (primitive_toString (e_value msg)) else c)"

definition majority :: "config \<Rightarrow> int" where
  "majority cfg = cN cfg div 2 + 1"

definition phaseOneValue :: "config \<Rightarrow> counts \<Rightarrow> Value" where
  "phaseOneValue cfg c =
     (if majority cfg \<le> int (c ''0'') then V0
      else if majority cfg \<le> int (c ''1'') then V1
      else VQ)"

definition processPhaseOneMessages :: "config \<Rightarrow> node \<Rightarrow> node" where
  "processPhaseOneMessages cfg nd =
     (if killed (state nd) then nd
      else
        let currentK = round_key (st_k (state nd));
            inbox1 = ensure_bucket (phaseOneMessages nd) currentK;
            messages = bucket inbox1 currentK;
            c = fold countMessagePhaseOne messages
                  (countOwnPhaseOne (st_x (state nd)) zero_counts)
        in nd \<lparr> state := (state nd) \<lparr> st_x := Some (phaseOneValue cfg c) \<rparr>,
                phaseOneMessages := inbox1 \<rparr>)"

definition countOwnPhaseTwo :: "Value option \<Rightarrow> counts \<Rightarrow> counts" where
  "countOwnPhaseTwo xo c =
     (case xo of None \<Rightarrow> c | Some v \<Rightarrow> increment c (value_toString v))"

definition countMessagePhaseTwo :: "entry \<Rightarrow> counts \<Rightarrow> counts" where
  "countMessagePhaseTwo msg c =
     (if e_value msg = JNum 0 \<or> e_value msg = JNum 1 \<or> e_value msg = JStr ''?''
      then increment c (primitive_toString (e_value msg)) else c)"

definition nonFaultyNodes :: "config \<Rightarrow> int" where
  "nonFaultyNodes cfg = cN cfg - cF cfg"

definition decisionThreshold :: "config \<Rightarrow> int" where
  "decisionThreshold cfg = nonFaultyNodes cfg div 2 + 1"

definition adoptionThreshold :: "config \<Rightarrow> int" where
  "adoptionThreshold cfg = nonFaultyNodes cfg div 3 + 1"

text \<open>
  Lines 260 to 274 on the state. \<open>coin\<close> is the outcome of the test
  \<open>Math.random() < 0.5\<close>, which only the last branch makes.
\<close>

definition phaseTwoRules :: "config \<Rightarrow> bool \<Rightarrow> counts \<Rightarrow> nodeState \<Rightarrow> nodeState" where
  "phaseTwoRules cfg coin c s =
     (if decisionThreshold cfg \<le> int (c ''0'') \<and> st_x s = Some V0 then s \<lparr> decided := Some True \<rparr>
      else if decisionThreshold cfg \<le> int (c ''1'') \<and> st_x s = Some V1 then s \<lparr> decided := Some True \<rparr>
      else if adoptionThreshold cfg \<le> int (c ''0'') then s \<lparr> st_x := Some V0 \<rparr>
      else if adoptionThreshold cfg \<le> int (c ''1'') then s \<lparr> st_x := Some V1 \<rparr>
      else s \<lparr> st_x := Some (if coin then V0 else V1) \<rparr>)"

definition processPhaseTwoMessages :: "config \<Rightarrow> bool \<Rightarrow> node \<Rightarrow> node" where
  "processPhaseTwoMessages cfg coin nd =
     (if killed (state nd) then nd
      else
        let currentK = round_key (st_k (state nd));
            inbox2 = ensure_bucket (phaseTwoMessages nd) currentK;
            messages = bucket inbox2 currentK;
            c = fold countMessagePhaseTwo messages
                  (countOwnPhaseTwo (st_x (state nd)) zero_counts)
        in nd \<lparr> state := phaseTwoRules cfg coin c (state nd),
                phaseTwoMessages := inbox2 \<rparr>)"

section \<open>The HTTP handlers\<close>

text \<open>
  A response: the status and the JSON sent (\<open>/status\<close> sends a text, modelled as a JSON
  string). A handler that throws is the value \<open>Inl TypeError\<close>.
\<close>

datatype response = Response nat json

definition success :: json where
  "success = JObj [(''success'', JBool True)]"

definition status_handler :: "config \<Rightarrow> response" where
  "status_handler cfg =
     (if isFaulty cfg then Response 500 (JStr ''faulty'') else Response 200 (JStr ''live''))"

text \<open>
  The names \<open>phaseOneMessages[k]\<close> finds on \<open>Object.prototype\<close> when the object has no own
  property of that name. Each of them is a function or an object (so \<open>!phaseOneMessages[k]\<close>
  is false) without a method \<open>push\<close> (so the call throws a TypeError).
\<close>

definition object_prototype_keys :: "string list" where
  "object_prototype_keys =
     [''constructor'', ''__defineGetter__'', ''__defineSetter__'', ''hasOwnProperty'',
      ''__lookupGetter__'', ''__lookupSetter__'', ''isPrototypeOf'', ''propertyIsEnumerable'',
      ''toString'', ''valueOf'', ''__proto__'', ''toLocaleString'']"

text \<open>
  \<open>if (!messages[k]) messages[k] = []; messages[k].push({ value, from })\<close> for a key \<open>k\<close> out
  of the request. The first read of \<open>messages[k]\<close> converts \<open>k\<close> and throws if the conversion
  does, before anything is written.
\<close>

definition deliver :: "inbox \<Rightarrow> json \<Rightarrow> entry \<Rightarrow> js_error + inbox" where
  "deliver m k e =
     (case js_toString k of
        Inl err \<Rightarrow> Inl err
      | Inr key \<Rightarrow>
          (case m key of
             Some b \<Rightarrow> Inr (m(key \<mapsto> b @ [e]))
           | None \<Rightarrow>
               if key \<in> set object_prototype_keys then Inl TypeError
               else Inr (m(key \<mapsto> [e]))))"

text \<open>
  The handler of \<open>POST /message\<close>, from the parsed body on: a body that is not JSON never
  reaches it (\<open>express.json()\<close> answers such a request itself, with status 400). A field
  the body lacks is \<open>JUndefined\<close>.
\<close>

definition message_handler :: "config \<Rightarrow> body \<Rightarrow> node \<Rightarrow> (js_error + response) \<times> node" where
  "message_handler cfg b nd =
     (if killed (state nd) \<or> isFaulty cfg
      then (Inr (Response 500 (JObj [(''error'', JStr ''Node is dead or faulty'')])), nd)
      else if b_phase b = JNum 1 then
        (case deliver (phaseOneMessages nd) (b_k b) \<lparr> e_value = b_value b, e_from = b_from b \<rparr> of
           Inl err \<Rightarrow> (Inl err, nd)
         | Inr m \<Rightarrow> (Inr (Response 200 success), nd \<lparr> phaseOneMessages := m \<rparr>))
      else if b_phase b = JNum 2 then
        (case deliver (phaseTwoMessages nd) (b_k b) \<lparr> e_value = b_value b, e_from = b_from b \<rparr> of
           Inl err \<Rightarrow> (Inl err, nd)
         | Inr m \<Rightarrow> (Inr (Response 200 success), nd \<lparr> phaseTwoMessages := m \<rparr>))
      else (Inr (Response 200 success), nd))"

definition stop_handler :: "node \<Rightarrow> response \<times> node" where
  "stop_handler nd =
     (Response 200 success,
      nd \<lparr> state := (state nd) \<lparr> killed := True \<rparr>, consensusRunning := False \<rparr>)"

fun bool_json :: "bool option \<Rightarrow> json" where
  "bool_json None = JNull"
| "bool_json (Some b) = JBool b"

fun round_json :: "nat option \<Rightarrow> json" where
  "round_json None = JNull"
| "round_json (Some n) = JNum (int n)"

definition state_json :: "nodeState \<Rightarrow> json" where
  "state_json s =
     JObj [(''killed'', JBool (killed s)), (''x'', value_json (st_x s)),
           (''decided'', bool_json (decided s)), (''k'', round_json (st_k s))]"

definition getState_handler :: "node \<Rightarrow> response" where
  "getState_handler nd = Response 200 (state_json (state nd))"

section \<open>The consensus driver\<close>

text \<open>
  The driver is one \<open>async\<close> function. Between two of its \<open>await\<close>s it runs without
  interruption, and a request handler runs only while it is suspended. Each definition
  below is the code from one point of the source up to the next suspension. The field
  \<open>pc\<close> holds the suspension of the one driver there is (lemma \<open>single_driver\<close>).
\<close>

fun phase_json :: "phase \<Rightarrow> json" where
  "phase_json PhaseOne = JNum 1"
| "phase_json PhaseTwo = JNum 2"

text \<open>The requests of \<open>broadcastMessage(phase, value, k)\<close>, in the order of its loop.\<close>

definition broadcastMessage ::
  "config \<Rightarrow> phase \<Rightarrow> Value option \<Rightarrow> nat option \<Rightarrow> (int \<times> body) list" where
  "broadcastMessage cfg ph v k =
     map (\<lambda>i. (i, \<lparr> b_phase = phase_json ph, b_value = value_json v,
                    b_k = round_json k, b_from = JNum (nodeId cfg) \<rparr>))
         (filter (\<lambda>i. i \<noteq> nodeId cfg) [0 .. cN cfg - 1])"

text \<open>\<open>!state.decided\<close> is true for \<open>false\<close> and for \<open>null\<close>.\<close>

definition truthy :: "bool option \<Rightarrow> bool" where
  "truthy d = (d = Some True)"

text \<open>
  Lines 107 to 113: the end of the loop body, up to \<open>await delay(10)\<close>. On \<open>null\<close>,
  \<open>state.k + 1\<close> is 1.
\<close>

definition endOfRound :: "node \<Rightarrow> node" where
  "endOfRound nd =
     (let nd1 =
        (if \<not> truthy (decided (state nd)) \<and> \<not> killed (state nd)
         then nd \<lparr> state := (state nd)
                   \<lparr> st_k := Some (case st_k (state nd) of None \<Rightarrow> 1 | Some n \<Rightarrow> n + 1) \<rparr> \<rparr>
         else nd)
      in nd1 \<lparr> pc := Sleeping \<rparr>)"

text \<open>
  \<open>runPhaseTwo\<close> up to its first \<open>await\<close>; where it returns at once, the loop body goes on.
\<close>

definition runPhaseTwo :: "config \<Rightarrow> node \<Rightarrow> node" where
  "runPhaseTwo cfg nd =
     (if killed (state nd) \<or> truthy (decided (state nd)) then endOfRound nd
      else nd \<lparr> outbox := outbox nd @
                   broadcastMessage cfg PhaseTwo (st_x (state nd)) (st_k (state nd)),
                pc := Broadcasting PhaseTwo \<rparr>)"

text \<open>\<open>runPhaseOne\<close> up to its first \<open>await\<close>; where it returns at once, \<open>runPhaseTwo\<close> follows.\<close>

definition runPhaseOne :: "config \<Rightarrow> node \<Rightarrow> node" where
  "runPhaseOne cfg nd =
     (if killed (state nd) \<or> truthy (decided (state nd)) then runPhaseTwo cfg nd
      else nd \<lparr> outbox := outbox nd @
                   broadcastMessage cfg PhaseOne (st_x (state nd)) (st_k (state nd)),
                pc := Broadcasting PhaseOne \<rparr>)"

text \<open>The test of the \<open>while\<close> loop of \<open>startConsensus\<close>, and the body's beginning.\<close>

definition whileLoop :: "config \<Rightarrow> node \<Rightarrow> node" where
  "whileLoop cfg nd =
     (if \<not> truthy (decided (state nd)) \<and> \<not> killed (state nd) then runPhaseOne cfg nd
      else nd \<lparr> pc := Finished \<rparr>)"

definition startConsensus :: "config \<Rightarrow> node \<Rightarrow> node" where
  "startConsensus cfg nd =
     (if cN cfg = 1 \<and> \<not> isFaulty cfg
      then nd \<lparr> state := (state nd) \<lparr> decided := Some True \<rparr>, pc := Finished \<rparr>
      else whileLoop cfg nd)"

definition start_handler :: "config \<Rightarrow> node \<Rightarrow> response \<times> node" where
  "start_handler cfg nd =
     (if isFaulty cfg \<or> killed (state nd)
      then (Response 500 (JObj [(''error'', JStr ''Node is faulty or killed'')]), nd)
      else (Response 200 success,
            if \<not> consensusRunning nd then startConsensus cfg (nd \<lparr> consensusRunning := True \<rparr>)
            else nd))"

text \<open>
  The test of the loop of \<open>waitForMessages\<close>. \<open>inTime\<close> is the outcome of
  \<open>Date.now() - startTime < maxWaitTime\<close>: the clock is not part of the model, so every
  outcome is allowed at every test.
\<close>

definition waitCondition :: "config \<Rightarrow> bool \<Rightarrow> phase \<Rightarrow> nat option \<Rightarrow> node \<Rightarrow> bool" where
  "waitCondition cfg inTime ph currentK nd =
     (inTime \<and>
      (case (case ph of PhaseOne \<Rightarrow> phaseOneMessages nd | PhaseTwo \<Rightarrow> phaseTwoMessages nd)
              (round_key currentK) of
         None \<Rightarrow> True
       | Some b \<Rightarrow> int (length b) < cN cfg - cF cfg - 1))"

text \<open>
  What follows the return of \<open>waitForMessages\<close>: the tally of the phase, then the rest of
  the loop body up to the next suspension.
\<close>

fun afterWait :: "config \<Rightarrow> bool \<Rightarrow> phase \<Rightarrow> node \<Rightarrow> node" where
  "afterWait cfg coin PhaseOne nd = runPhaseTwo cfg (processPhaseOneMessages cfg nd)"
| "afterWait cfg coin PhaseTwo nd = endOfRound (processPhaseTwoMessages cfg coin nd)"

text \<open>
  The driver resumes from its suspension. After a broadcast it enters \<open>waitForMessages\<close>
  and tests the loop condition; after a \<open>delay(10)\<close> inside \<open>waitForMessages\<close> it returns if
  the node is killed and tests the condition again otherwise; after the delay that ends a
  round it tests the condition of the outer loop.
\<close>

definition resume :: "config \<Rightarrow> bool \<Rightarrow> bool \<Rightarrow> node \<Rightarrow> node" where
  "resume cfg inTime coin nd =
     (case pc nd of
        Idle \<Rightarrow> nd
      | Finished \<Rightarrow> nd
      | Broadcasting ph \<Rightarrow>
          if waitCondition cfg inTime ph (st_k (state nd)) nd
          then nd \<lparr> pc := Waiting ph (st_k (state nd)) \<rparr>
          else afterWait cfg coin ph nd
      | Waiting ph currentK \<Rightarrow>
          if killed (state nd) then afterWait cfg coin ph nd
          else if waitCondition cfg inTime ph currentK nd then nd
          else afterWait cfg coin ph nd
      | Sleeping \<Rightarrow> whileLoop cfg nd)"

section \<open>Executions\<close>

text \<open>
  What can happen to a node: one of the five requests is handled, or the driver resumes
  (with the outcome of the clock test and of the coin it may need).
\<close>

datatype event =
    Status
  | GetState
  | Start
  | Stop
  | Message body
  | Resume bool bool

fun step :: "config \<Rightarrow> event \<Rightarrow> node \<Rightarrow> node" where
  "step cfg Status nd = nd"
| "step cfg GetState nd = nd"
| "step cfg Start nd = snd (start_handler cfg nd)"
| "step cfg Stop nd = snd (stop_handler nd)"
| "step cfg (Message b) nd = snd (message_handler cfg b nd)"
| "step cfg (Resume inTime coin) nd = resume cfg inTime coin nd"

definition run :: "config \<Rightarrow> event list \<Rightarrow> node \<Rightarrow> node" where
  "run cfg evs nd = fold (step cfg) evs nd"

section \<open>The tallies in the words of the specification\<close>

text \<open>
  The specification's tallies, written from its section 4.3 and not from the code: the count
  of a value is one for the node's own value if it is that value, plus the number of
  received messages that carry it.
\<close>

definition spec_count :: "Value \<Rightarrow> Value option \<Rightarrow> entry list \<Rightarrow> nat" where
  "spec_count v own msgs =
     (if own = Some v then 1 else 0) + length (filter (\<lambda>m. e_value m = value_json (Some v)) msgs)"

definition spec_phaseOneTally :: "int \<Rightarrow> Value option \<Rightarrow> entry list \<Rightarrow> Value" where
  "spec_phaseOneTally n own msgs =
     (let count0 = spec_count V0 own msgs;
          count1 = spec_count V1 own msgs;
          maj = n div 2 + 1
      in if maj \<le> int count0 then V0
         else if maj \<le> int count1 then V1
         else VQ)"

definition spec_phaseTwoTally :: "int \<Rightarrow> int \<Rightarrow> bool \<Rightarrow> Value \<Rightarrow> entry list \<Rightarrow> bool \<times> Value" where
  "spec_phaseTwoTally n f coin own msgs =
     (let count0 = spec_count V0 (Some own) msgs;
          count1 = spec_count V1 (Some own) msgs;
          decisionT = (n - f) div 2 + 1;
          adoptionT = (n - f) div 3 + 1
      in if decisionT \<le> int count0 \<and> own = V0 then (True, own)
         else if decisionT \<le> int count1 \<and> own = V1 then (True, own)
         else if adoptionT \<le> int count0 then (False, V0)
         else if adoptionT \<le> int count1 then (False, V1)
         else (False, if coin then V0 else V1))"

text \<open>
  The specification's well-formed message, \<open>{phase: 1|2, value: 0|1|"?", k: int, from: int}\<close>,
  and its client errors (a status from 400 to 499). An \<open>int\<close> is an integer that a round
  number or a node index can be, a \<open>JNum\<close>.
\<close>

fun is_integer :: "json \<Rightarrow> bool" where
  "is_integer (JNum i) = True"
| "is_integer j = False"

definition well_formed_message :: "body \<Rightarrow> bool" where
  "well_formed_message b =
     ((b_phase b = JNum 1 \<or> b_phase b = JNum 2)
      \<and> (b_value b = JNum 0 \<or> b_value b = JNum 1 \<or> b_value b = JStr ''?'')
      \<and> is_integer (b_k b) \<and> is_integer (b_from b))"

fun client_error :: "js_error + response \<Rightarrow> bool" where
  "client_error (Inr (Response st j)) = (400 \<le> st \<and> st < 500)"
| "client_error (Inl err) = False"

text \<open>A body whose four fields stand for values of the program.\<close>

definition body_values :: "body \<Rightarrow> bool" where
  "body_values b =
     (json_value (b_phase b) \<and> json_value (b_value b) \<and> json_value (b_k b) \<and> json_value (b_from b))"

section \<open>An invariant of the executions\<close>

text \<open>
  What holds of a node that is not faulty and started from 0 or 1, whatever has happened
  to it: \<open>x\<close> and \<open>decided\<close> are not \<open>null\<close>; where the driver is suspended bounds what the
  state can be; a decided node holds 0 or 1; a driver that has left \<open>Idle\<close> is marked as
  running unless the node is killed; every phase-1 request sent carries 0 or 1.
\<close>

definition value_is_bit :: "Value option \<Rightarrow> bool" where
  "value_is_bit xo = (xo = Some V0 \<or> xo = Some V1)"

definition phase_one_outbox :: "(int \<times> body) list \<Rightarrow> bool" where
  "phase_one_outbox ms =
     list_all (\<lambda>m. b_phase (snd m) \<noteq> JNum 1 \<or> b_value (snd m) = JNum 0 \<or> b_value (snd m) = JNum 1) ms"

fun control_invariant :: "control \<Rightarrow> nodeState \<Rightarrow> bool" where
  "control_invariant Idle s = (value_is_bit (st_x s) \<and> \<not> truthy (decided s))"
| "control_invariant (Broadcasting PhaseOne) s = (value_is_bit (st_x s) \<and> \<not> truthy (decided s))"
| "control_invariant (Waiting PhaseOne k) s = (value_is_bit (st_x s) \<and> \<not> truthy (decided s))"
| "control_invariant (Broadcasting PhaseTwo) s = (\<not> truthy (decided s))"
| "control_invariant (Waiting PhaseTwo k) s = (\<not> truthy (decided s))"
| "control_invariant Sleeping s = (killed s \<or> value_is_bit (st_x s))"
| "control_invariant Finished s = True"

definition node_invariant :: "node \<Rightarrow> bool" where
  "node_invariant nd =
     (st_x (state nd) \<noteq> None \<and> decided (state nd) \<noteq> None
      \<and> control_invariant (pc nd) (state nd)
      \<and> (truthy (decided (state nd)) \<longrightarrow> value_is_bit (st_x (state nd)))
      \<and> (consensusRunning nd \<or> killed (state nd) \<or> pc nd = Idle)
      \<and> phase_one_outbox (outbox nd))"

section \<open>Example nodes\<close>

text \<open>
  Node 0 of three, none presumed faulty, starting from 1. \<open>example_node\<close> has received, for
  round 0, the values 1 and 0 in phase 1 and the values 1, \<open>?\<close> and \<open>true\<close> in phase 2;
  \<open>example_killed\<close> has received two 0s in phase 1 and two 1s in phase 2, and then \<open>/stop\<close>.
\<close>

definition example_config :: config where
  "example_config = \<lparr> nodeId = 0, cN = 3, cF = 0, initialValue = V1, isFaulty = False \<rparr>"

definition example_node :: node where
  "example_node =
     (initial example_config)
       \<lparr> phaseOneMessages := [''0'' \<mapsto> [\<lparr> e_value = JNum 1, e_from = JNum 1 \<rparr>,
                                        \<lparr> e_value = JNum 0, e_from = JNum 2 \<rparr>]],
         phaseTwoMessages := [''0'' \<mapsto> [\<lparr> e_value = JNum 1, e_from = JNum 1 \<rparr>,
                                        \<lparr> e_value = JStr ''?'', e_from = JNum 2 \<rparr>,
                                        \<lparr> e_value = JBool True, e_from = JNum 2 \<rparr>]] \<rparr>"

definition example_killed :: node where
  "example_killed =
     snd (stop_handler
       ((initial example_config)
          \<lparr> phaseOneMessages := [''0'' \<mapsto> [\<lparr> e_value = JNum 0, e_from = JNum 1 \<rparr>,
                                           \<lparr> e_value = JNum 0, e_from = JNum 2 \<rparr>]],
            phaseTwoMessages := [''0'' \<mapsto> [\<lparr> e_value = JNum 1, e_from = JNum 1 \<rparr>,
                                           \<lparr> e_value = JNum 1, e_from = JNum 2 \<rparr>]] \<rparr>))"

text \<open>A body with a value that is no Value and a sender that is no number.\<close>

definition malformed_example :: body where
  "malformed_example = \<lparr> b_phase = JNum 1, b_value = JStr ''abc'', b_k = JNum 0, b_from = JNull \<rparr>"

text \<open>
  A run of the example node to its decision: both peers' phase-1 votes for 1 arrive, the
  driver tallies 1, both phase-2 votes for 1 arrive, the driver decides 1.
\<close>

definition vote :: "int \<Rightarrow> int \<Rightarrow> event" where
  "vote ph sender =
     Message \<lparr> b_phase = JNum ph, b_value = JNum 1, b_k = JNum 0, b_from = JNum sender \<rparr>"

definition deciding_run :: "event list" where
  "deciding_run =
     [Start, vote 1 1, vote 1 2, Resume True True, vote 2 1, vote 2 2, Resume True True]"

section \<open>Counting\<close>

lemma int_toString_0 [simp]: "int_toString 0 = ''0''"
  by (simp add: int_toString_def decimal.simps digit_def)

lemma int_toString_1 [simp]: "int_toString 1 = ''1''"
  by (simp add: int_toString_def decimal.simps digit_def)

lemma decimal_0 [simp]: "decimal 0 = ''0''"
  by (simp add: decimal.simps digit_def)

lemma value_toString_inj [simp]: "(value_toString a = value_toString b) = (a = b)"
  by (cases a; cases b) simp_all

lemma bucket_ensure [simp]: "bucket (ensure_bucket m key) key = bucket m key"
  by (simp add: bucket_def ensure_bucket_def split: option.splits)

text \<open>
  The key of a round is \<open>null\<close> or a string of digits, so it never names a property that a
  buffer inherits: the driver's \<open>phaseOneMessages[currentK]\<close> reads an own property or none.
\<close>

lemma digit_in: "digit d \<in> set ''0123456789''"
proof -
  have "d mod 10 < length ''0123456789''" by simp
  then show ?thesis
    unfolding digit_def by (rule nth_mem)
qed

lemma decimal_digits: "set (decimal n) \<subseteq> set ''0123456789''"
proof (induction n rule: decimal.induct)
  case (1 n)
  show ?case
  proof (cases "n < 10")
    case True
    then have "decimal n = [digit n]" by (simp add: decimal.simps)
    then show ?thesis using digit_in [of n] by simp
  next
    case False
    then have "decimal n = decimal (n div 10) @ [digit (n mod 10)]"
      by (subst decimal.simps) simp
    then show ?thesis
      using 1 [OF False] digit_in [of "n mod 10"] by simp
  qed
qed

lemma round_key_not_inherited: "round_key k \<notin> set object_prototype_keys"
proof (cases k)
  case None
  then show ?thesis by (simp add: object_prototype_keys_def)
next
  case (Some n)
  have "\<not> set key \<subseteq> set ''0123456789''" if "key \<in> set object_prototype_keys" for key
    using that by (auto simp: object_prototype_keys_def)
  with decimal_digits [of n] Some show ?thesis
    by auto
qed

lemma fold_phaseOne_0:
  "fold countMessagePhaseOne ms c ''0'' = c ''0'' + length (filter (\<lambda>m. e_value m = JNum 0) ms)"
  by (induction ms arbitrary: c) (auto simp: countMessagePhaseOne_def increment_def)

lemma fold_phaseOne_1:
  "fold countMessagePhaseOne ms c ''1'' = c ''1'' + length (filter (\<lambda>m. e_value m = JNum 1) ms)"
  by (induction ms arbitrary: c) (auto simp: countMessagePhaseOne_def increment_def)

lemma fold_phaseTwo_0:
  "fold countMessagePhaseTwo ms c ''0'' = c ''0'' + length (filter (\<lambda>m. e_value m = JNum 0) ms)"
  by (induction ms arbitrary: c) (auto simp: countMessagePhaseTwo_def increment_def)

lemma fold_phaseTwo_1:
  "fold countMessagePhaseTwo ms c ''1'' = c ''1'' + length (filter (\<lambda>m. e_value m = JNum 1) ms)"
  by (induction ms arbitrary: c) (auto simp: countMessagePhaseTwo_def increment_def)

lemma fold_phaseTwo_q:
  "fold countMessagePhaseTwo ms c ''?'' = c ''?'' + length (filter (\<lambda>m. e_value m = JStr ''?'') ms)"
  by (induction ms arbitrary: c) (auto simp: countMessagePhaseTwo_def increment_def)

lemma fold_phaseTwo_any:
  "fold countMessagePhaseTwo ms c (value_toString w) =
   c (value_toString w) + length (filter (\<lambda>m. e_value m = value_json (Some w)) ms)"
  by (cases w) (simp_all add: fold_phaseTwo_0 fold_phaseTwo_1 fold_phaseTwo_q)

text \<open>The counting loops compute the specification's counts.\<close>

lemma phaseOne_counts:
  "fold countMessagePhaseOne ms (countOwnPhaseOne xo zero_counts) ''0'' = spec_count V0 xo ms"
  "fold countMessagePhaseOne ms (countOwnPhaseOne xo zero_counts) ''1'' = spec_count V1 xo ms"
  by (auto simp: fold_phaseOne_0 fold_phaseOne_1 countOwnPhaseOne_def zero_counts_def
      increment_def spec_count_def split: option.splits)

lemma phaseTwo_counts:
  "fold countMessagePhaseTwo ms (countOwnPhaseTwo xo zero_counts) (value_toString w) = spec_count w xo ms"
  by (cases xo)
     (simp_all add: fold_phaseTwo_any countOwnPhaseTwo_def zero_counts_def increment_def
        spec_count_def)

lemma length_filter_01:
  "length (filter (\<lambda>m. e_value m = JNum i) ms) =
   length (filter (\<lambda>m. e_value m = JNum i)
             (filter (\<lambda>m. e_value m = JNum 0 \<or> e_value m = JNum 1) ms))"
  if "i = 0 \<or> i = 1"
  using that by (induction ms) auto

lemma processPhaseOneMessages_killed:
  "killed (state nd) \<Longrightarrow> processPhaseOneMessages cfg nd = nd"
  by (simp add: processPhaseOneMessages_def)

lemma processPhaseTwoMessages_killed:
  "killed (state nd) \<Longrightarrow> processPhaseTwoMessages cfg coin nd = nd"
  by (simp add: processPhaseTwoMessages_def)

lemma example_killed_state:
  "state example_killed = \<lparr> killed = True, st_x = Some V1, decided = Some False, st_k = Some 0 \<rparr>"
  by (simp add: example_killed_def stop_handler_def initial_def example_config_def)

section \<open>The phase-1 tally\<close>

lemma processPhaseOneMessages_live:
  assumes "\<not> killed (state nd)"
  shows "state (processPhaseOneMessages cfg nd) =
         (state nd) \<lparr> st_x := Some (spec_phaseOneTally (cN cfg) (st_x (state nd))
                                 (bucket (phaseOneMessages nd) (round_key (st_k (state nd))))) \<rparr>"
  using assms
  by (simp add: processPhaseOneMessages_def Let_def phaseOneValue_def majority_def
      phaseOne_counts spec_phaseOneTally_def)

text \<open>
  Claim C2, as amended. On a node that is not killed, \<open>processPhaseOneMessages\<close> changes
  nothing of the state but \<open>x\<close>, and the new \<open>x\<close> is the specification's phase-1 tally of the
  node's own \<open>x\<close> and the messages in the bucket of the current round: the counts of 0 and
  of 1 include the own value if and only if it is that value and each message if and only
  if it carries that value, and with \<open>majority = N div 2 + 1\<close> the result is 0 if the count
  of 0 reaches it, else 1 if the count of 1 reaches it, else \<open>?\<close>. On a killed node the
  function returns at its first line and changes nothing.
\<close>

theorem phase_one_tally:
  "(\<not> killed (state nd) \<longrightarrow>
      state (processPhaseOneMessages cfg nd) =
      (state nd) \<lparr> st_x := Some (spec_phaseOneTally (cN cfg) (st_x (state nd))
                              (bucket (phaseOneMessages nd) (round_key (st_k (state nd))))) \<rparr>)
   \<and> (killed (state nd) \<longrightarrow> processPhaseOneMessages cfg nd = nd)"
  using processPhaseOneMessages_live [of nd cfg] processPhaseOneMessages_killed [of nd cfg]
  by blast

theorem phase_one_tally_witness:
  "\<not> killed (state example_node)
   \<and> state (processPhaseOneMessages example_config example_node) =
       \<lparr> killed = False, st_x = Some V1, decided = Some False, st_k = Some 0 \<rparr>
   \<and> killed (state example_killed)
   \<and> processPhaseOneMessages example_config example_killed = example_killed"
proof -
  have live: "\<not> killed (state example_node)"
    by (simp add: example_node_def initial_def)
  have dead: "killed (state example_killed)"
    by (simp add: example_killed_state)
  have "state (processPhaseOneMessages example_config example_node) =
       \<lparr> killed = False, st_x = Some V1, decided = Some False, st_k = Some 0 \<rparr>"
    using phase_one_tally [of example_node example_config] live
    by (simp add: example_node_def initial_def example_config_def spec_phaseOneTally_def
        spec_count_def bucket_def)
  moreover have "processPhaseOneMessages example_config example_killed = example_killed"
    using phase_one_tally [of example_killed example_config] dead by blast
  ultimately show ?thesis
    using live dead by blast
qed

text \<open>
  Claim C2 as stated fails on a killed node: the killed example node holds 1 and has
  received two 0s for round 0, so the specification's tally is 0, and
  \<open>processPhaseOneMessages\<close> leaves \<open>x\<close> at 1.
\<close>

theorem phase_one_tally_killed_counterexample:
  "spec_phaseOneTally (cN example_config) (st_x (state example_killed))
     (bucket (phaseOneMessages example_killed) (round_key (st_k (state example_killed)))) = V0
   \<and> st_x (state (processPhaseOneMessages example_config example_killed)) = Some V1"
proof -
  have "bucket (phaseOneMessages example_killed) (round_key (st_k (state example_killed))) =
        [\<lparr> e_value = JNum 0, e_from = JNum 1 \<rparr>, \<lparr> e_value = JNum 0, e_from = JNum 2 \<rparr>]"
    by (simp add: example_killed_state)
       (simp add: example_killed_def stop_handler_def bucket_def)
  then have "spec_phaseOneTally (cN example_config) (st_x (state example_killed))
     (bucket (phaseOneMessages example_killed) (round_key (st_k (state example_killed)))) = V0"
    by (simp add: example_killed_state spec_phaseOneTally_def spec_count_def example_config_def)
  moreover have "st_x (state (processPhaseOneMessages example_config example_killed)) = Some V1"
    by (simp add: processPhaseOneMessages_def example_killed_state)
  ultimately show ?thesis by blast
qed

text \<open>
  Claim C5. For counts \<open>c0\<close> and \<open>c1\<close> with \<open>c0 + c1 \<le> N\<close>, at most one of them reaches
  \<open>majority = N div 2 + 1\<close>, so the order of the two tests of the phase-1 tally does not
  matter: the result is 0 exactly if \<open>c0\<close> reaches the majority, 1 exactly if \<open>c1\<close> does,
  and \<open>?\<close> exactly if neither does.
\<close>

theorem phase_one_no_tie:
  assumes "int (c ''0'') + int (c ''1'') \<le> cN cfg"
  shows "\<not> (majority cfg \<le> int (c ''0'') \<and> majority cfg \<le> int (c ''1''))
       \<and> (phaseOneValue cfg c = V0 \<longleftrightarrow> majority cfg \<le> int (c ''0''))
       \<and> (phaseOneValue cfg c = V1 \<longleftrightarrow> majority cfg \<le> int (c ''1''))
       \<and> (phaseOneValue cfg c = VQ \<longleftrightarrow>
            \<not> majority cfg \<le> int (c ''0'') \<and> \<not> majority cfg \<le> int (c ''1''))"
proof -
  have "\<not> (majority cfg \<le> int (c ''0'') \<and> majority cfg \<le> int (c ''1''))"
    using assms unfolding majority_def by linarith
  then show ?thesis
    by (auto simp: phaseOneValue_def)
qed

theorem phase_one_no_tie_witness:
  "int ((zero_counts(''0'' := 1, ''1'' := 2)) ''0'') + int ((zero_counts(''0'' := 1, ''1'' := 2)) ''1'')
     \<le> cN example_config
   \<and> phaseOneValue example_config (zero_counts(''0'' := 1, ''1'' := 2)) = V1
   \<and> \<not> majority example_config \<le> int ((zero_counts(''0'' := 1, ''1'' := 2)) ''0'')"
  using phase_one_no_tie [of "zero_counts(''0'' := 1, ''1'' := 2)" example_config]
  by (simp add: example_config_def zero_counts_def majority_def)

section \<open>The phase-2 tally\<close>

lemma phaseTwoRules_spec:
  assumes "st_x s = Some v"
    and "c ''0'' = spec_count V0 (Some v) ms"
    and "c ''1'' = spec_count V1 (Some v) ms"
  shows "phaseTwoRules cfg coin c s =
         (case spec_phaseTwoTally (cN cfg) (cF cfg) coin v ms of
            (d, v') \<Rightarrow> s \<lparr> st_x := Some v',
                              decided := (if d then Some True else decided s) \<rparr>)"
proof -
  have dT: "(cN cfg - cF cfg) div 2 + 1 = decisionThreshold cfg"
    by (simp add: decisionThreshold_def nonFaultyNodes_def)
  have aT: "(cN cfg - cF cfg) div 3 + 1 = adoptionThreshold cfg"
    by (simp add: adoptionThreshold_def nonFaultyNodes_def)
  obtain kl xv dc kv where s: "s = \<lparr>killed = kl, st_x = xv, decided = dc, st_k = kv\<rparr>"
    by (cases s)
  with assms(1) have xv: "xv = Some v" by simp
  show ?thesis
    unfolding phaseTwoRules_def spec_phaseTwoTally_def Let_def dT aT assms(2,3) s xv
    by (cases v; simp)
qed

lemma processPhaseTwoMessages_live:
  assumes "\<not> killed (state nd)" and "st_x (state nd) = Some v"
  shows "state (processPhaseTwoMessages cfg coin nd) =
         (case spec_phaseTwoTally (cN cfg) (cF cfg) coin v
                 (bucket (phaseTwoMessages nd) (round_key (st_k (state nd)))) of
            (d, v') \<Rightarrow> (state nd) \<lparr> st_x := Some v',
                                   decided := (if d then Some True else decided (state nd)) \<rparr>)"
proof -
  let ?ms = "bucket (phaseTwoMessages nd) (round_key (st_k (state nd)))"
  let ?c = "fold countMessagePhaseTwo ?ms (countOwnPhaseTwo (Some v) zero_counts)"
  have c0: "?c ''0'' = spec_count V0 (Some v) ?ms"
    using phaseTwo_counts [of ?ms "Some v" V0] by simp
  have c1: "?c ''1'' = spec_count V1 (Some v) ?ms"
    using phaseTwo_counts [of ?ms "Some v" V1] by simp
  have "state (processPhaseTwoMessages cfg coin nd) = phaseTwoRules cfg coin ?c (state nd)"
    using assms by (simp add: processPhaseTwoMessages_def Let_def)
  also have "\<dots> = (case spec_phaseTwoTally (cN cfg) (cF cfg) coin v ?ms of
            (d, v') \<Rightarrow> (state nd) \<lparr> st_x := Some v',
                                   decided := (if d then Some True else decided (state nd)) \<rparr>)"
    by (rule phaseTwoRules_spec [OF assms(2) c0 c1])
  finally show ?thesis .
qed

text \<open>
  Claim C1, as amended. On a node that is not killed and whose \<open>x\<close> is a value \<open>v\<close> (the node
  is not faulty), \<open>processPhaseTwoMessages\<close> leaves the state as the specification's phase-2
  tally says: with the counts over 0, 1 and \<open>?\<close> (own value included),
  \<open>decisionThreshold = (N - F) div 2 + 1\<close> and \<open>adoptionThreshold = (N - F) div 3 + 1\<close>, the
  first rule that matches applies: decide (\<open>decided := true\<close>, \<open>x\<close> unchanged) if the count
  of 0 reaches the decision threshold and \<open>v = 0\<close>, else if the count of 1 reaches it and
  \<open>v = 1\<close>; else adopt 0 if the count of 0 reaches the adoption threshold, else 1 if the count
  of 1 does, else the coin's bit. The loops count each of 0, 1 and \<open>?\<close> as the specification
  does. On a killed node the function returns at its first line and changes nothing.
\<close>

theorem phase_two_tally:
  "(\<not> killed (state nd) \<and> st_x (state nd) = Some v \<longrightarrow>
      state (processPhaseTwoMessages cfg coin nd) =
      (case spec_phaseTwoTally (cN cfg) (cF cfg) coin v
              (bucket (phaseTwoMessages nd) (round_key (st_k (state nd)))) of
         (d, v') \<Rightarrow> (state nd) \<lparr> st_x := Some v',
                                decided := (if d then Some True else decided (state nd)) \<rparr>))
   \<and> fold countMessagePhaseTwo ms (countOwnPhaseTwo (Some v) zero_counts) (value_toString w) =
       spec_count w (Some v) ms
   \<and> (killed (state nd) \<longrightarrow> processPhaseTwoMessages cfg coin nd = nd)"
  using processPhaseTwoMessages_live [of nd v cfg coin]
    processPhaseTwoMessages_killed [of nd cfg coin] phaseTwo_counts [of ms "Some v" w]
  by blast

theorem phase_two_tally_witness:
  "\<not> killed (state example_node) \<and> st_x (state example_node) = Some V1
   \<and> state (processPhaseTwoMessages example_config True example_node) =
       \<lparr> killed = False, st_x = Some V1, decided = Some True, st_k = Some 0 \<rparr>
   \<and> killed (state example_killed)
   \<and> processPhaseTwoMessages example_config True example_killed = example_killed"
proof -
  have live: "\<not> killed (state example_node)" and x: "st_x (state example_node) = Some V1"
    by (simp_all add: example_node_def initial_def example_config_def)
  have dead: "killed (state example_killed)"
    by (simp add: example_killed_state)
  have "state (processPhaseTwoMessages example_config True example_node) =
       \<lparr> killed = False, st_x = Some V1, decided = Some True, st_k = Some 0 \<rparr>"
    using phase_two_tally [of example_node V1 example_config True] live x
    by (simp add: example_node_def initial_def example_config_def spec_phaseTwoTally_def
        spec_count_def bucket_def)
  moreover have "processPhaseTwoMessages example_config True example_killed = example_killed"
    using phase_two_tally [of example_killed V1 example_config True] dead by blast
  ultimately show ?thesis
    using live x dead by blast
qed

text \<open>
  Claim C1 as stated fails on a killed node: the killed example node holds 1 and has
  received two 1s for round 0, so the specification's tally decides 1, and
  \<open>processPhaseTwoMessages\<close> leaves \<open>decided\<close> false.
\<close>

theorem phase_two_tally_killed_counterexample:
  "st_x (state example_killed) = Some V1
   \<and> spec_phaseTwoTally (cN example_config) (cF example_config) True V1
       (bucket (phaseTwoMessages example_killed) (round_key (st_k (state example_killed)))) =
       (True, V1)
   \<and> decided (state (processPhaseTwoMessages example_config True example_killed)) = Some False"
proof -
  have "bucket (phaseTwoMessages example_killed) (round_key (st_k (state example_killed))) =
        [\<lparr> e_value = JNum 1, e_from = JNum 1 \<rparr>, \<lparr> e_value = JNum 1, e_from = JNum 2 \<rparr>]"
    by (simp add: example_killed_state)
       (simp add: example_killed_def stop_handler_def bucket_def)
  then have "spec_phaseTwoTally (cN example_config) (cF example_config) True V1
       (bucket (phaseTwoMessages example_killed) (round_key (st_k (state example_killed)))) =
       (True, V1)"
    by (simp add: spec_phaseTwoTally_def spec_count_def example_config_def)
  moreover have
    "decided (state (processPhaseTwoMessages example_config True example_killed)) = Some False"
    by (simp add: processPhaseTwoMessages_def example_killed_state)
  ultimately show ?thesis
    by (simp add: example_killed_state)
qed

lemma phaseTwoRules_cong:
  assumes "c ''0'' = c' ''0''" and "c ''1'' = c' ''1''"
  shows "phaseTwoRules cfg coin c s = phaseTwoRules cfg coin c' s"
  unfolding phaseTwoRules_def assms ..

text \<open>
  Claim C10. The outcome of the phase-2 tally does not depend on the messages whose value
  is neither 0 nor 1 (the value \<open>?\<close> and every value that is no Value): two nodes in the
  same state whose buckets for the current round agree once those messages are removed
  end in the same state, whatever the own value. The count of \<open>?\<close> is computed and never
  read (\<open>phaseTwoRules_cong\<close>).
\<close>

theorem phase_two_ignores_other_values:
  assumes "state nd' = state nd"
    and "filter (\<lambda>m. e_value m = JNum 0 \<or> e_value m = JNum 1)
           (bucket (phaseTwoMessages nd') (round_key (st_k (state nd)))) =
         filter (\<lambda>m. e_value m = JNum 0 \<or> e_value m = JNum 1)
           (bucket (phaseTwoMessages nd) (round_key (st_k (state nd))))"
  shows "state (processPhaseTwoMessages cfg coin nd') = state (processPhaseTwoMessages cfg coin nd)"
proof (cases "killed (state nd)")
  case True
  with assms(1) show ?thesis
    by (simp add: processPhaseTwoMessages_def)
next
  case False
  let ?key = "round_key (st_k (state nd))"
  let ?own = "countOwnPhaseTwo (st_x (state nd)) zero_counts"
  let ?c = "fold countMessagePhaseTwo (bucket (phaseTwoMessages nd) ?key) ?own"
  let ?c' = "fold countMessagePhaseTwo (bucket (phaseTwoMessages nd') ?key) ?own"
  have c0: "?c' ''0'' = ?c ''0''"
    unfolding fold_phaseTwo_0
    using length_filter_01 [of 0 "bucket (phaseTwoMessages nd') ?key"]
      length_filter_01 [of 0 "bucket (phaseTwoMessages nd) ?key"] assms(2)
    by simp
  have c1: "?c' ''1'' = ?c ''1''"
    unfolding fold_phaseTwo_1
    using length_filter_01 [of 1 "bucket (phaseTwoMessages nd') ?key"]
      length_filter_01 [of 1 "bucket (phaseTwoMessages nd) ?key"] assms(2)
    by simp
  have "state (processPhaseTwoMessages cfg coin nd') = phaseTwoRules cfg coin ?c' (state nd)"
    using False assms(1) by (simp add: processPhaseTwoMessages_def Let_def)
  also have "\<dots> = phaseTwoRules cfg coin ?c (state nd)"
    by (rule phaseTwoRules_cong [OF c0 c1])
  also have "\<dots> = state (processPhaseTwoMessages cfg coin nd)"
    using False by (simp add: processPhaseTwoMessages_def Let_def)
  finally show ?thesis .
qed

theorem phase_two_ignores_other_values_witness:
  "state (example_node \<lparr> phaseTwoMessages := [''0'' \<mapsto> [\<lparr> e_value = JNum 1, e_from = JNum 1 \<rparr>]] \<rparr>)
     = state example_node
   \<and> filter (\<lambda>m. e_value m = JNum 0 \<or> e_value m = JNum 1)
       (bucket (phaseTwoMessages
          (example_node \<lparr> phaseTwoMessages := [''0'' \<mapsto> [\<lparr> e_value = JNum 1, e_from = JNum 1 \<rparr>]] \<rparr>))
          (round_key (st_k (state example_node)))) =
     filter (\<lambda>m. e_value m = JNum 0 \<or> e_value m = JNum 1)
       (bucket (phaseTwoMessages example_node) (round_key (st_k (state example_node))))
   \<and> state (processPhaseTwoMessages example_config True
        (example_node \<lparr> phaseTwoMessages := [''0'' \<mapsto> [\<lparr> e_value = JNum 1, e_from = JNum 1 \<rparr>]] \<rparr>))
     = state (processPhaseTwoMessages example_config True example_node)"
proof -
  let ?nd' = "example_node \<lparr> phaseTwoMessages := [''0'' \<mapsto> [\<lparr> e_value = JNum 1, e_from = JNum 1 \<rparr>]] \<rparr>"
  have s: "state ?nd' = state example_node"
    by simp
  have f: "filter (\<lambda>m. e_value m = JNum 0 \<or> e_value m = JNum 1)
       (bucket (phaseTwoMessages ?nd') (round_key (st_k (state example_node)))) =
     filter (\<lambda>m. e_value m = JNum 0 \<or> e_value m = JNum 1)
       (bucket (phaseTwoMessages example_node) (round_key (st_k (state example_node))))"
    by (simp add: example_node_def initial_def example_config_def bucket_def)
  from phase_two_ignores_other_values [OF s f, of example_config True] s f
  show ?thesis by blast
qed

section \<open>The message handler\<close>

text \<open>
  Claim C7. A \<open>/message\<close> request that reaches a killed or faulty node is answered with
  status 500, and the node is left as it was: neither message buffer changes.
\<close>

theorem rejected_delivery_is_atomic:
  assumes "killed (state nd) \<or> isFaulty cfg"
  shows "message_handler cfg b nd =
         (Inr (Response 500 (JObj [(''error'', JStr ''Node is dead or faulty'')])), nd)"
  using assms by (auto simp: message_handler_def)

theorem rejected_delivery_is_atomic_witness:
  "(killed (state example_killed) \<or> isFaulty example_config)
   \<and> message_handler example_config malformed_example example_killed =
       (Inr (Response 500 (JObj [(''error'', JStr ''Node is dead or faulty'')])), example_killed)
   \<and> phaseOneMessages
       (snd (message_handler example_config
               \<lparr> b_phase = JNum 1, b_value = JNum 1, b_k = JNum 0, b_from = JNum 1 \<rparr>
               example_killed)) =
       phaseOneMessages example_killed"
proof -
  have k: "killed (state example_killed) \<or> isFaulty example_config"
    by (simp add: example_killed_state)
  from rejected_delivery_is_atomic [OF k, of malformed_example]
    rejected_delivery_is_atomic
      [OF k, of "\<lparr> b_phase = JNum 1, b_value = JNum 1, b_k = JNum 0, b_from = JNum 1 \<rparr>"] k
  show ?thesis by simp
qed

lemma deliver_cases:
  "deliver m k e =
     (case js_toString k of
        Inl err \<Rightarrow> Inl err
      | Inr key \<Rightarrow>
          if m key = None \<and> key \<in> set object_prototype_keys then Inl TypeError
          else Inr (m(key \<mapsto> bucket m key @ [e])))"
  by (simp add: deliver_def bucket_def split: option.splits sum.splits)

lemma deliver_result:
  "(\<exists>m'. deliver m k e = Inr m') \<or> deliver m k e = Inl TypeError"
proof (cases "deliver m k e")
  case (Inl err)
  then show ?thesis by (cases err) simp
next
  case (Inr m')
  then show ?thesis by simp
qed

text \<open>On a live node the handler is its three branches, whatever the body.\<close>

lemma message_handler_live:
  assumes "\<not> killed (state nd)" and "\<not> isFaulty cfg"
  shows "message_handler cfg b nd =
     (if b_phase b = JNum 1 then
        (case deliver (phaseOneMessages nd) (b_k b) \<lparr> e_value = b_value b, e_from = b_from b \<rparr> of
           Inl err \<Rightarrow> (Inl err, nd)
         | Inr m \<Rightarrow> (Inr (Response 200 success), nd \<lparr> phaseOneMessages := m \<rparr>))
      else if b_phase b = JNum 2 then
        (case deliver (phaseTwoMessages nd) (b_k b) \<lparr> e_value = b_value b, e_from = b_from b \<rparr> of
           Inl err \<Rightarrow> (Inl err, nd)
         | Inr m \<Rightarrow> (Inr (Response 200 success), nd \<lparr> phaseTwoMessages := m \<rparr>))
      else (Inr (Response 200 success), nd))"
  using assms by (simp add: message_handler_def)

lemma message_handler_answer:
  assumes "\<not> killed (state nd)" and "\<not> isFaulty cfg"
  shows "(fst (message_handler cfg b nd) = Inr (Response 200 success)
          \<or> fst (message_handler cfg b nd) = Inl TypeError)
       \<and> state (snd (message_handler cfg b nd)) = state nd
       \<and> outbox (snd (message_handler cfg b nd)) = outbox nd"
proof -
  let ?e = "\<lparr> e_value = b_value b, e_from = b_from b \<rparr>"
  note d1 = deliver_result [of "phaseOneMessages nd" "b_k b" ?e]
  note d2 = deliver_result [of "phaseTwoMessages nd" "b_k b" ?e]
  show ?thesis
    unfolding message_handler_live [OF assms]
    using d1 d2 by auto
qed

text \<open>
  Claim C8, as amended. The handler of \<open>/message\<close> does not validate the body it is given
  (a JSON object or array that \<open>express.json()\<close> has parsed). On a node that is neither
  killed nor faulty, a body that is not a well-formed message is not rejected with a client
  error: the handler answers 200 \<open>{success: true}\<close> or throws a TypeError, and it sends
  nothing and leaves the state alone. If \<open>phase\<close> is neither 1 nor 2 it answers 200 and
  changes nothing. If \<open>phase\<close> is 1 or 2 it appends \<open>{ value, from }\<close>, as received, to the
  bucket of that phase under the key \<open>k\<close> converts to, and answers 200; it throws, and
  changes nothing, where \<open>k\<close> has no conversion to a key (an object with a field \<open>toString\<close>,
  or an array that holds one) or where the key names a property the buffer inherits from
  \<open>Object.prototype\<close> and does not hold itself.
\<close>

theorem malformed_message_not_rejected:
  assumes "\<not> killed (state nd)" and "\<not> isFaulty cfg"
    and "body_values b" and "\<not> well_formed_message b"
  shows "\<not> client_error (fst (message_handler cfg b nd))
       \<and> (fst (message_handler cfg b nd) = Inr (Response 200 success)
          \<or> fst (message_handler cfg b nd) = Inl TypeError)
       \<and> state (snd (message_handler cfg b nd)) = state nd
       \<and> outbox (snd (message_handler cfg b nd)) = outbox nd
       \<and> (b_phase b \<noteq> JNum 1 \<and> b_phase b \<noteq> JNum 2 \<longrightarrow>
            message_handler cfg b nd = (Inr (Response 200 success), nd))
       \<and> (b_phase b = JNum 1 \<longrightarrow>
            message_handler cfg b nd =
              (case js_toString (b_k b) of
                 Inl err \<Rightarrow> (Inl err, nd)
               | Inr key \<Rightarrow>
                   if phaseOneMessages nd key = None \<and> key \<in> set object_prototype_keys
                   then (Inl TypeError, nd)
                   else (Inr (Response 200 success),
                         nd \<lparr> phaseOneMessages := (phaseOneMessages nd)
                                (key \<mapsto> bucket (phaseOneMessages nd) key @
                                   [\<lparr> e_value = b_value b, e_from = b_from b \<rparr>]) \<rparr>)))
       \<and> (b_phase b = JNum 2 \<longrightarrow>
            message_handler cfg b nd =
              (case js_toString (b_k b) of
                 Inl err \<Rightarrow> (Inl err, nd)
               | Inr key \<Rightarrow>
                   if phaseTwoMessages nd key = None \<and> key \<in> set object_prototype_keys
                   then (Inl TypeError, nd)
                   else (Inr (Response 200 success),
                         nd \<lparr> phaseTwoMessages := (phaseTwoMessages nd)
                                (key \<mapsto> bucket (phaseTwoMessages nd) key @
                                   [\<lparr> e_value = b_value b, e_from = b_from b \<rparr>]) \<rparr>)))"
proof -
  note a = message_handler_answer [OF assms(1,2), of b]
  from a have "\<not> client_error (fst (message_handler cfg b nd))"
    by (auto simp: success_def)
  moreover have "b_phase b \<noteq> JNum 1 \<and> b_phase b \<noteq> JNum 2 \<longrightarrow>
            message_handler cfg b nd = (Inr (Response 200 success), nd)"
    by (simp add: message_handler_live [OF assms(1,2)])
  moreover have "b_phase b = JNum 1 \<longrightarrow>
            message_handler cfg b nd =
              (case js_toString (b_k b) of
                 Inl err \<Rightarrow> (Inl err, nd)
               | Inr key \<Rightarrow>
                   if phaseOneMessages nd key = None \<and> key \<in> set object_prototype_keys
                   then (Inl TypeError, nd)
                   else (Inr (Response 200 success),
                         nd \<lparr> phaseOneMessages := (phaseOneMessages nd)
                                (key \<mapsto> bucket (phaseOneMessages nd) key @
                                   [\<lparr> e_value = b_value b, e_from = b_from b \<rparr>]) \<rparr>))"
    by (simp add: message_handler_live [OF assms(1,2)] deliver_cases split: sum.splits)
  moreover have "b_phase b = JNum 2 \<longrightarrow>
            message_handler cfg b nd =
              (case js_toString (b_k b) of
                 Inl err \<Rightarrow> (Inl err, nd)
               | Inr key \<Rightarrow>
                   if phaseTwoMessages nd key = None \<and> key \<in> set object_prototype_keys
                   then (Inl TypeError, nd)
                   else (Inr (Response 200 success),
                         nd \<lparr> phaseTwoMessages := (phaseTwoMessages nd)
                                (key \<mapsto> bucket (phaseTwoMessages nd) key @
                                   [\<lparr> e_value = b_value b, e_from = b_from b \<rparr>]) \<rparr>))"
    by (simp add: message_handler_live [OF assms(1,2)] deliver_cases split: sum.splits)
  ultimately show ?thesis
    using a by blast
qed

lemma decimal_chars: "set (decimal n) \<subseteq> set (CHR ''-'' # ''0123456789'')"
  by (rule order_trans [OF decimal_digits set_subset_Cons])

lemma int_toString_chars: "set (int_toString i) \<subseteq> set (CHR ''-'' # ''0123456789'')"
proof (cases "i < 0")
  case True
  then have "int_toString i = CHR ''-'' # decimal (nat (- i))"
    by (simp add: int_toString_def)
  moreover have "set (CHR ''-'' # decimal (nat (- i))) \<subseteq> set (CHR ''-'' # ''0123456789'')"
    using decimal_chars [of "nat (- i)"] by (simp only: set_simps insert_subset insertI1 simp_thms)
  ultimately show ?thesis by (simp only:)
next
  case False
  then have "int_toString i = decimal (nat i)"
    by (simp add: int_toString_def)
  then show ?thesis
    using decimal_chars [of "nat i"] by (simp only:)
qed

lemma exponent_form_value: "json_value (JOtherNumber ''1e+21'')"
proof -
  have "''1e+21'' \<noteq> int_toString i" for i
  proof
    assume eq: "''1e+21'' = int_toString i"
    have "CHR ''e'' \<in> set ''1e+21''"
      by simp
    then have "CHR ''e'' \<in> set (int_toString i)"
      by (simp only: eq)
    with int_toString_chars [of i] have "CHR ''e'' \<in> set (CHR ''-'' # ''0123456789'')"
      by (rule subsetD)
    then show False
      by simp
  qed
  then show ?thesis
    by (auto simp: exact_decimal_def)
qed


text \<open>
  Three malformed bodies on the live example node: the value \<open>abc\<close> is stored; the round
  \<open>1e21\<close> is stored under the key \<open>1e+21\<close>; the round \<open>{"toString": 1}\<close> makes the handler
  throw.
\<close>

theorem malformed_message_not_rejected_witness:
  "\<not> killed (state (initial example_config)) \<and> \<not> isFaulty example_config
   \<and> body_values malformed_example \<and> \<not> well_formed_message malformed_example
   \<and> \<not> client_error (fst (message_handler example_config malformed_example (initial example_config)))
   \<and> bucket (phaseOneMessages
        (snd (message_handler example_config malformed_example (initial example_config)))) ''0'' =
      [\<lparr> e_value = JStr ''abc'', e_from = JNull \<rparr>]
   \<and> body_values (malformed_example \<lparr> b_k := JOtherNumber ''1e+21'' \<rparr>)
   \<and> \<not> well_formed_message (malformed_example \<lparr> b_k := JOtherNumber ''1e+21'' \<rparr>)
   \<and> bucket (phaseOneMessages
        (snd (message_handler example_config (malformed_example \<lparr> b_k := JOtherNumber ''1e+21'' \<rparr>)
                (initial example_config)))) ''1e+21'' =
      [\<lparr> e_value = JStr ''abc'', e_from = JNull \<rparr>]
   \<and> body_values (malformed_example \<lparr> b_k := JObj [(''toString'', JNum 1)] \<rparr>)
   \<and> \<not> well_formed_message (malformed_example \<lparr> b_k := JObj [(''toString'', JNum 1)] \<rparr>)
   \<and> message_handler example_config (malformed_example \<lparr> b_k := JObj [(''toString'', JNum 1)] \<rparr>)
        (initial example_config) =
      (Inl TypeError, initial example_config)"
proof -
  let ?big = "malformed_example \<lparr> b_k := JOtherNumber ''1e+21'' \<rparr>"
  let ?obj = "malformed_example \<lparr> b_k := JObj [(''toString'', JNum 1)] \<rparr>"
  have live: "\<not> killed (state (initial example_config))" "\<not> isFaulty example_config"
    by (simp_all add: initial_def example_config_def)
  have v1: "body_values malformed_example" and v3: "body_values ?obj"
    by (simp_all add: body_values_def malformed_example_def exact_limit_def)
  have v2: "body_values ?big"
    using exponent_form_value
    by (simp add: body_values_def malformed_example_def exact_limit_def del: json_value.simps(5))
  have w1: "\<not> well_formed_message malformed_example"
    and w2: "\<not> well_formed_message ?big" and w3: "\<not> well_formed_message ?obj"
    by (simp_all add: well_formed_message_def malformed_example_def)
  have "bucket (phaseOneMessages
        (snd (message_handler example_config malformed_example (initial example_config)))) ''0'' =
      [\<lparr> e_value = JStr ''abc'', e_from = JNull \<rparr>]"
    using malformed_message_not_rejected [OF live v1 w1]
    by (simp add: malformed_example_def initial_def object_prototype_keys_def bucket_def)
  moreover have "bucket (phaseOneMessages
        (snd (message_handler example_config ?big (initial example_config)))) ''1e+21'' =
      [\<lparr> e_value = JStr ''abc'', e_from = JNull \<rparr>]"
    using malformed_message_not_rejected [OF live v2 w2]
    by (simp add: malformed_example_def initial_def object_prototype_keys_def bucket_def)
  moreover have "message_handler example_config ?obj (initial example_config) =
      (Inl TypeError, initial example_config)"
    using malformed_message_not_rejected [OF live v3 w3]
    by (simp add: malformed_example_def)
  ultimately show ?thesis
    using live v1 v2 v3 w1 w2 w3 malformed_message_not_rejected [OF live v1 w1]
    by blast
qed

text \<open>
  Claim C8 as stated fails: on the live example node the malformed example body (its value
  is \<open>abc\<close>, its sender \<open>null\<close>) is answered 200 \<open>{success: true}\<close>, no client error, and is
  stored in the phase-1 bucket of round 0.
\<close>

theorem malformed_message_accepted_counterexample:
  "\<not> well_formed_message malformed_example
   \<and> \<not> killed (state (initial example_config)) \<and> \<not> isFaulty example_config
   \<and> \<not> client_error (fst (message_handler example_config malformed_example (initial example_config)))
   \<and> message_handler example_config malformed_example (initial example_config) =
       (Inr (Response 200 (JObj [(''success'', JBool True)])),
        (initial example_config)
          \<lparr> phaseOneMessages := [''0'' \<mapsto> [\<lparr> e_value = JStr ''abc'', e_from = JNull \<rparr>]] \<rparr>)"
  by (simp add: well_formed_message_def malformed_example_def initial_def example_config_def
      message_handler_def deliver_def object_prototype_keys_def success_def)

section \<open>Executions\<close>

lemma run_Nil [simp]: "run cfg [] nd = nd"
  by (simp add: run_def)

lemma run_Cons [simp]: "run cfg (ev # evs) nd = run cfg evs (step cfg ev nd)"
  by (simp add: run_def)

lemma run_append: "run cfg (evs @ evs') nd = run cfg evs' (run cfg evs nd)"
  by (simp add: run_def)

subsection \<open>One driver\<close>

text \<open>
  \<open>startConsensus\<close> is called only while \<open>consensusRunning\<close> is false, and once the driver
  has left \<open>Idle\<close> that is so only on a killed node, where \<open>/start\<close> is refused: in no
  execution a second driver starts beside the first, and one \<open>pc\<close> describes the driver.
\<close>

lemma afterWait_flags:
  "consensusRunning (afterWait cfg coin ph nd) = consensusRunning nd
   \<and> killed (state (afterWait cfg coin ph nd)) = killed (state nd)"
  by (cases ph)
     (simp_all add: processPhaseOneMessages_def processPhaseTwoMessages_def runPhaseTwo_def
        endOfRound_def phaseTwoRules_def Let_def)

lemma resume_flags:
  "consensusRunning (resume cfg inTime coin nd) = consensusRunning nd
   \<and> killed (state (resume cfg inTime coin nd)) = killed (state nd)
   \<and> (pc nd = Idle \<longrightarrow> pc (resume cfg inTime coin nd) = Idle)"
  by (cases "pc nd")
     (simp_all add: resume_def afterWait_flags whileLoop_def runPhaseOne_def runPhaseTwo_def
        endOfRound_def Let_def)

lemma single_driver_step:
  assumes "consensusRunning nd \<or> killed (state nd) \<or> pc nd = Idle"
  shows "consensusRunning (step cfg ev nd) \<or> killed (state (step cfg ev nd))
         \<or> pc (step cfg ev nd) = Idle"
proof (cases ev)
  case Start
  have "consensusRunning (startConsensus cfg (nd \<lparr> consensusRunning := True \<rparr>))"
    by (simp add: startConsensus_def whileLoop_def runPhaseOne_def runPhaseTwo_def
        endOfRound_def Let_def)
  then show ?thesis
    using Start assms by (auto simp: start_handler_def)
next
  case Stop
  then show ?thesis by (simp add: stop_handler_def)
next
  case (Message b)
  then show ?thesis
    using assms by (auto simp: message_handler_def split: sum.splits)
next
  case (Resume inTime coin)
  then show ?thesis
    using assms resume_flags [of cfg inTime coin nd] by auto
qed (use assms in simp_all)

lemma single_driver:
  "consensusRunning (run cfg evs (initial cfg)) \<or> killed (state (run cfg evs (initial cfg)))
   \<or> pc (run cfg evs (initial cfg)) = Idle"
proof -
  have "consensusRunning (run cfg evs nd) \<or> killed (state (run cfg evs nd)) \<or> pc (run cfg evs nd) = Idle"
    if "consensusRunning nd \<or> killed (state nd) \<or> pc nd = Idle" for nd
    using that
  proof (induction evs arbitrary: nd)
    case Nil
    then show ?case by simp
  next
    case (Cons ev evs)
    from Cons.IH [OF single_driver_step [OF Cons.prems, of cfg ev]]
    show ?case by simp
  qed
  moreover have "pc (initial cfg) = Idle"
    by (simp add: initial_def)
  ultimately show ?thesis by blast
qed


subsection \<open>After \<open>/stop\<close>\<close>

lemma killed_update_idem: "killed s \<Longrightarrow> s \<lparr> killed := True \<rparr> = s"
  by (cases s) simp

lemma afterWait_killed:
  "killed (state nd) \<Longrightarrow> afterWait cfg coin ph nd = nd \<lparr> pc := Sleeping \<rparr>"
  by (cases ph)
     (simp_all add: processPhaseOneMessages_def processPhaseTwoMessages_def runPhaseTwo_def
        endOfRound_def)

text \<open>On a killed node the driver only moves towards its end: nothing but \<open>pc\<close> changes.\<close>

lemma resume_killed:
  assumes "killed (state nd)"
  shows "\<exists>c. resume cfg inTime coin nd = nd \<lparr> pc := c \<rparr>"
proof (cases "pc nd")
  case Idle
  then have "resume cfg inTime coin nd = nd \<lparr> pc := Idle \<rparr>" by (simp add: resume_def)
  then show ?thesis ..
next
  case (Broadcasting ph)
  then show ?thesis
    using assms by (auto simp: resume_def afterWait_killed)
next
  case (Waiting ph k)
  then show ?thesis
    using assms by (auto simp: resume_def afterWait_killed)
next
  case Sleeping
  then show ?thesis
    using assms by (auto simp: resume_def whileLoop_def)
next
  case Finished
  then have "resume cfg inTime coin nd = nd \<lparr> pc := Finished \<rparr>" by (simp add: resume_def)
  then show ?thesis ..
qed

lemma step_killed:
  assumes "killed (state nd)" and "\<not> consensusRunning nd"
  shows "\<exists>c. step cfg ev nd = nd \<lparr> pc := c \<rparr>"
proof (cases ev)
  case (Resume inTime coin)
  then show ?thesis using resume_killed [OF assms(1)] by simp
next
  case Stop
  have "step cfg Stop nd = nd \<lparr> pc := pc nd \<rparr>"
    using assms by (simp add: stop_handler_def killed_update_idem)
  with Stop show ?thesis by blast
next
  case Start
  have "step cfg Start nd = nd \<lparr> pc := pc nd \<rparr>"
    using assms by (simp add: start_handler_def)
  with Start show ?thesis by blast
next
  case (Message b)
  have "step cfg (Message b) nd = nd \<lparr> pc := pc nd \<rparr>"
    using assms by (simp add: message_handler_def)
  with Message show ?thesis by blast
next
  case Status
  have "step cfg Status nd = nd \<lparr> pc := pc nd \<rparr>" by simp
  with Status show ?thesis by blast
next
  case GetState
  have "step cfg GetState nd = nd \<lparr> pc := pc nd \<rparr>" by simp
  with GetState show ?thesis by blast
qed

lemma run_killed:
  assumes "killed (state nd)" and "\<not> consensusRunning nd"
  shows "\<exists>c. run cfg evs nd = nd \<lparr> pc := c \<rparr>"
  using assms
proof (induction evs arbitrary: nd)
  case Nil
  have "run cfg [] nd = nd \<lparr> pc := pc nd \<rparr>" by simp
  then show ?case ..
next
  case (Cons ev evs)
  obtain c where c: "step cfg ev nd = nd \<lparr> pc := c \<rparr>"
    using step_killed [OF Cons.prems] by blast
  have "killed (state (nd \<lparr> pc := c \<rparr>))" and "\<not> consensusRunning (nd \<lparr> pc := c \<rparr>)"
    using Cons.prems by simp_all
  from Cons.IH [OF this] obtain c' where "run cfg evs (nd \<lparr> pc := c \<rparr>) = nd \<lparr> pc := c, pc := c' \<rparr>"
    by blast
  then have "run cfg (ev # evs) nd = nd \<lparr> pc := c' \<rparr>"
    using c by simp
  then show ?case ..
qed

text \<open>
  Claim C9. \<open>/stop\<close> answers 200 and sets \<open>killed\<close>. Whatever happens afterwards (requests,
  the driver resuming), \<open>killed\<close> stays true; the state, both message buffers and the list
  of requests sent stay as \<open>/stop\<close> left them, so no round runs again; \<open>consensusRunning\<close>
  stays false; \<open>/start\<close> answers 500 and changes nothing; \<open>/stop\<close> and \<open>/getState\<close> answer 200.
\<close>

theorem stop_is_permanent:
  "fst (stop_handler nd) = Response 200 success
   \<and> killed (state (snd (stop_handler nd)))
   \<and> killed (state (run cfg evs (snd (stop_handler nd))))
   \<and> state (run cfg evs (snd (stop_handler nd))) = state (snd (stop_handler nd))
   \<and> outbox (run cfg evs (snd (stop_handler nd))) = outbox nd
   \<and> phaseOneMessages (run cfg evs (snd (stop_handler nd))) = phaseOneMessages nd
   \<and> phaseTwoMessages (run cfg evs (snd (stop_handler nd))) = phaseTwoMessages nd
   \<and> \<not> consensusRunning (run cfg evs (snd (stop_handler nd)))
   \<and> start_handler cfg (run cfg evs (snd (stop_handler nd))) =
       (Response 500 (JObj [(''error'', JStr ''Node is faulty or killed'')]),
        run cfg evs (snd (stop_handler nd)))
   \<and> fst (stop_handler (run cfg evs (snd (stop_handler nd)))) = Response 200 success
   \<and> getState_handler (run cfg evs (snd (stop_handler nd))) =
       Response 200 (state_json (state (snd (stop_handler nd))))"
proof -
  let ?s0 = "snd (stop_handler nd)"
  have k0: "killed (state ?s0)" and r0: "\<not> consensusRunning ?s0"
    by (simp_all add: stop_handler_def)
  obtain c where c: "run cfg evs ?s0 = ?s0 \<lparr> pc := c \<rparr>"
    using run_killed [OF k0 r0] by blast
  show ?thesis
    unfolding c
    by (simp add: stop_handler_def start_handler_def getState_handler_def)
qed

theorem stop_is_permanent_witness:
  "killed (state (run example_config (Stop # deciding_run) (initial example_config)))
   \<and> decided (state (run example_config (Stop # deciding_run) (initial example_config))) = Some False
   \<and> outbox (run example_config (Stop # deciding_run) (initial example_config)) = []
   \<and> fst (start_handler example_config
            (run example_config (Stop # deciding_run) (initial example_config))) =
       Response 500 (JObj [(''error'', JStr ''Node is faulty or killed'')])"
  using stop_is_permanent [of "initial example_config" example_config deciding_run]
  by (simp add: stop_handler_def initial_def example_config_def)

subsection \<open>A single node\<close>

lemma single_step:
  assumes "cN cfg = 1" and "\<not> isFaulty cfg"
    and "pc nd = Finished" and "decided (state nd) = Some True"
  shows "pc (step cfg ev nd) = Finished \<and> decided (state (step cfg ev nd)) = Some True
       \<and> st_x (state (step cfg ev nd)) = st_x (state nd)
       \<and> st_k (state (step cfg ev nd)) = st_k (state nd)
       \<and> outbox (step cfg ev nd) = outbox nd
       \<and> killed (state (step cfg ev nd)) = (killed (state nd) \<or> ev = Stop)"
proof (cases ev)
  case (Message b)
  then show ?thesis
    using assms by (auto simp: message_handler_def split: sum.splits)
next
  case (Resume inTime coin)
  then show ?thesis
    using assms by (simp add: resume_def)
qed (use assms in \<open>simp_all add: start_handler_def stop_handler_def startConsensus_def\<close>)

lemma single_run:
  assumes "cN cfg = 1" and "\<not> isFaulty cfg"
    and "pc nd = Finished" and "decided (state nd) = Some True"
  shows "pc (run cfg evs nd) = Finished \<and> decided (state (run cfg evs nd)) = Some True
       \<and> st_x (state (run cfg evs nd)) = st_x (state nd)
       \<and> st_k (state (run cfg evs nd)) = st_k (state nd)
       \<and> outbox (run cfg evs nd) = outbox nd
       \<and> killed (state (run cfg evs nd)) = (killed (state nd) \<or> Stop \<in> set evs)"
  using assms(3,4)
proof (induction evs arbitrary: nd)
  case Nil
  then show ?case by simp
next
  case (Cons ev evs)
  note st = single_step [OF assms(1,2) Cons.prems, of ev]
  from st have "pc (step cfg ev nd) = Finished" and "decided (state (step cfg ev nd)) = Some True"
    by simp_all
  from Cons.IH [OF this] st show ?case
    by auto
qed

text \<open>
  Claim C6. With \<open>N = 1\<close> on a node that is not faulty, \<open>/start\<close> answers 200 and its call of
  \<open>startConsensus\<close> sets \<open>decided\<close> and returns: the driver is finished, nothing has been
  sent, \<open>x\<close> is the initial value and \<open>k\<close> is 0. Whatever happens afterwards, the driver stays
  finished, nothing is ever sent and the state stays the same but for \<open>killed\<close>, which is
  true exactly after a \<open>/stop\<close>; so \<open>/getState\<close> answers
  \<open>{killed: false, x: 0, decided: true, k: 0}\<close> for the initial value 0 while no \<open>/stop\<close> has
  come.
\<close>

theorem single_node_shortcut:
  assumes "cN cfg = 1" and "\<not> isFaulty cfg"
  shows "fst (start_handler cfg (initial cfg)) = Response 200 success
       \<and> state (snd (start_handler cfg (initial cfg))) =
           \<lparr> killed = False, st_x = Some (initialValue cfg), decided = Some True, st_k = Some 0 \<rparr>
       \<and> pc (snd (start_handler cfg (initial cfg))) = Finished
       \<and> outbox (snd (start_handler cfg (initial cfg))) = []
       \<and> pc (run cfg evs (snd (start_handler cfg (initial cfg)))) = Finished
       \<and> outbox (run cfg evs (snd (start_handler cfg (initial cfg)))) = []
       \<and> state (run cfg evs (snd (start_handler cfg (initial cfg)))) =
           \<lparr> killed = (Stop \<in> set evs), st_x = Some (initialValue cfg), decided = Some True,
             st_k = Some 0 \<rparr>
       \<and> getState_handler (run cfg evs (snd (start_handler cfg (initial cfg)))) =
           Response 200 (JObj [(''killed'', JBool (Stop \<in> set evs)),
                               (''x'', value_json (Some (initialValue cfg))),
                               (''decided'', JBool True), (''k'', JNum 0)])"
proof -
  let ?nd1 = "snd (start_handler cfg (initial cfg))"
  have nd1: "?nd1 = (initial cfg) \<lparr> state := (state (initial cfg)) \<lparr> decided := Some True \<rparr>,
                                   consensusRunning := True, pc := Finished \<rparr>"
    using assms by (simp add: start_handler_def startConsensus_def initial_def)
  have st1: "state ?nd1 =
      \<lparr> killed = False, st_x = Some (initialValue cfg), decided = Some True, st_k = Some 0 \<rparr>"
    unfolding nd1 using assms(2) by (simp add: initial_def)
  have pc1: "pc ?nd1 = Finished" and ob1: "outbox ?nd1 = []"
    unfolding nd1 by (simp_all add: initial_def)
  have d1: "decided (state ?nd1) = Some True"
    by (simp add: st1)
  note r = single_run [OF assms pc1 d1, of evs]
  have st: "state (run cfg evs ?nd1) =
      \<lparr> killed = (Stop \<in> set evs), st_x = Some (initialValue cfg), decided = Some True,
        st_k = Some 0 \<rparr>"
    using r by (cases "state (run cfg evs ?nd1)") (simp add: st1)
  have "fst (start_handler cfg (initial cfg)) = Response 200 success"
    using assms by (simp add: start_handler_def initial_def)
  moreover have "getState_handler (run cfg evs ?nd1) =
           Response 200 (JObj [(''killed'', JBool (Stop \<in> set evs)),
                               (''x'', value_json (Some (initialValue cfg))),
                               (''decided'', JBool True), (''k'', JNum 0)])"
    by (simp add: getState_handler_def st state_json_def)
  ultimately show ?thesis
    using st1 pc1 ob1 r st by simp
qed

theorem single_node_shortcut_witness:
  "cN (example_config \<lparr> cN := 1, initialValue := V0 \<rparr>) = 1
   \<and> \<not> isFaulty (example_config \<lparr> cN := 1, initialValue := V0 \<rparr>)
   \<and> getState_handler (run (example_config \<lparr> cN := 1, initialValue := V0 \<rparr>) [GetState]
        (snd (start_handler (example_config \<lparr> cN := 1, initialValue := V0 \<rparr>)
                (initial (example_config \<lparr> cN := 1, initialValue := V0 \<rparr>))))) =
      Response 200 (JObj [(''killed'', JBool False), (''x'', JNum 0),
                          (''decided'', JBool True), (''k'', JNum 0)])"
  using single_node_shortcut [of "example_config \<lparr> cN := 1, initialValue := V0 \<rparr>" "[GetState]"]
  by (simp add: example_config_def)


subsection \<open>The invariant holds in every execution\<close>

lemma phase_one_outbox_append [simp]:
  "phase_one_outbox (ms @ ms') = (phase_one_outbox ms \<and> phase_one_outbox ms')"
  by (simp add: phase_one_outbox_def)

lemma broadcast_two_outbox [simp]: "phase_one_outbox (broadcastMessage cfg PhaseTwo v k)"
  by (simp add: phase_one_outbox_def broadcastMessage_def list_all_iff)

lemma broadcast_one_outbox [simp]:
  "value_is_bit v \<Longrightarrow> phase_one_outbox (broadcastMessage cfg PhaseOne v k)"
  by (auto simp: phase_one_outbox_def broadcastMessage_def list_all_iff value_is_bit_def)

lemma invariant_initial:
  assumes "\<not> isFaulty cfg" and "initialValue cfg = V0 \<or> initialValue cfg = V1"
  shows "node_invariant (initial cfg)"
  using assms
  by (auto simp: node_invariant_def initial_def value_is_bit_def truthy_def phase_one_outbox_def)

lemma phaseTwoRules_effect:
  assumes "st_x s \<noteq> None"
  shows "killed (phaseTwoRules cfg coin c s) = killed s
       \<and> st_k (phaseTwoRules cfg coin c s) = st_k s
       \<and> value_is_bit (st_x (phaseTwoRules cfg coin c s))
       \<and> (decided (phaseTwoRules cfg coin c s) = decided s
           \<or> decided (phaseTwoRules cfg coin c s) = Some True)"
  by (simp add: phaseTwoRules_def value_is_bit_def)

lemma invariant_endOfRound:
  assumes "st_x (state nd) \<noteq> None" and "decided (state nd) \<noteq> None"
    and "killed (state nd) \<or> value_is_bit (st_x (state nd))"
    and "truthy (decided (state nd)) \<longrightarrow> value_is_bit (st_x (state nd))"
    and "consensusRunning nd \<or> killed (state nd)"
    and "phase_one_outbox (outbox nd)"
  shows "node_invariant (endOfRound nd)"
  using assms
  by (auto simp: node_invariant_def endOfRound_def Let_def)

lemma invariant_runPhaseTwo:
  assumes "st_x (state nd) \<noteq> None" and "decided (state nd) \<noteq> None"
    and "truthy (decided (state nd)) \<longrightarrow> value_is_bit (st_x (state nd))"
    and "consensusRunning nd \<or> killed (state nd)"
    and "phase_one_outbox (outbox nd)"
  shows "node_invariant (runPhaseTwo cfg nd)"
proof (cases "killed (state nd) \<or> truthy (decided (state nd))")
  case True
  then have "killed (state nd) \<or> value_is_bit (st_x (state nd))"
    using assms(3) by blast
  from invariant_endOfRound [OF assms(1,2) this assms(3,4,5)] True show ?thesis
    by (simp add: runPhaseTwo_def)
next
  case False
  then show ?thesis
    using assms by (simp add: runPhaseTwo_def node_invariant_def)
qed

lemma processPhaseOneMessages_effect:
  "pc (processPhaseOneMessages cfg nd) = pc nd
   \<and> outbox (processPhaseOneMessages cfg nd) = outbox nd
   \<and> consensusRunning (processPhaseOneMessages cfg nd) = consensusRunning nd
   \<and> killed (state (processPhaseOneMessages cfg nd)) = killed (state nd)
   \<and> decided (state (processPhaseOneMessages cfg nd)) = decided (state nd)
   \<and> st_k (state (processPhaseOneMessages cfg nd)) = st_k (state nd)
   \<and> (st_x (state nd) \<noteq> None \<longrightarrow> st_x (state (processPhaseOneMessages cfg nd)) \<noteq> None)
   \<and> (killed (state nd) \<longrightarrow> st_x (state (processPhaseOneMessages cfg nd)) = st_x (state nd))"
  by (simp add: processPhaseOneMessages_def Let_def)

lemma processPhaseTwoMessages_effect:
  assumes "st_x (state nd) \<noteq> None"
  shows "pc (processPhaseTwoMessages cfg coin nd) = pc nd
   \<and> outbox (processPhaseTwoMessages cfg coin nd) = outbox nd
   \<and> consensusRunning (processPhaseTwoMessages cfg coin nd) = consensusRunning nd
   \<and> killed (state (processPhaseTwoMessages cfg coin nd)) = killed (state nd)
   \<and> st_k (state (processPhaseTwoMessages cfg coin nd)) = st_k (state nd)
   \<and> st_x (state (processPhaseTwoMessages cfg coin nd)) \<noteq> None
   \<and> (killed (state nd) \<or> value_is_bit (st_x (state (processPhaseTwoMessages cfg coin nd))))
   \<and> (killed (state nd) \<longrightarrow> state (processPhaseTwoMessages cfg coin nd) = state nd)
   \<and> (decided (state (processPhaseTwoMessages cfg coin nd)) = decided (state nd)
       \<or> decided (state (processPhaseTwoMessages cfg coin nd)) = Some True)"
proof (cases "killed (state nd)")
  case True
  then show ?thesis using assms by (simp add: processPhaseTwoMessages_def)
next
  case False
  let ?c = "fold countMessagePhaseTwo
              (bucket (ensure_bucket (phaseTwoMessages nd) (round_key (st_k (state nd))))
                 (round_key (st_k (state nd))))
              (countOwnPhaseTwo (st_x (state nd)) zero_counts)"
  have st: "state (processPhaseTwoMessages cfg coin nd) = phaseTwoRules cfg coin ?c (state nd)"
    and rest: "pc (processPhaseTwoMessages cfg coin nd) = pc nd"
      "outbox (processPhaseTwoMessages cfg coin nd) = outbox nd"
      "consensusRunning (processPhaseTwoMessages cfg coin nd) = consensusRunning nd"
    using False by (simp_all add: processPhaseTwoMessages_def Let_def)
  note e = phaseTwoRules_effect [OF assms, of cfg coin ?c]
  from e have "st_x (phaseTwoRules cfg coin ?c (state nd)) \<noteq> None"
    by (auto simp: value_is_bit_def)
  with e False show ?thesis
    unfolding st rest by simp
qed

lemma invariant_afterWait:
  assumes "node_invariant nd" and "pc nd = Broadcasting ph \<or> pc nd = Waiting ph k"
  shows "node_invariant (afterWait cfg coin ph nd)"
proof (cases ph)
  case PhaseOne
  note e = processPhaseOneMessages_effect [of cfg nd]
  have nt: "\<not> truthy (decided (state nd))" and run: "consensusRunning nd \<or> killed (state nd)"
    using assms PhaseOne by (auto simp: node_invariant_def)
  have "node_invariant (runPhaseTwo cfg (processPhaseOneMessages cfg nd))"
  proof (rule invariant_runPhaseTwo)
    show "st_x (state (processPhaseOneMessages cfg nd)) \<noteq> None"
      using e assms(1) by (simp add: node_invariant_def)
    show "decided (state (processPhaseOneMessages cfg nd)) \<noteq> None"
      using e assms(1) by (simp add: node_invariant_def)
    show "truthy (decided (state (processPhaseOneMessages cfg nd))) \<longrightarrow>
          value_is_bit (st_x (state (processPhaseOneMessages cfg nd)))"
      using e nt by simp
    show "consensusRunning (processPhaseOneMessages cfg nd) \<or>
          killed (state (processPhaseOneMessages cfg nd))"
      using e run by simp
    show "phase_one_outbox (outbox (processPhaseOneMessages cfg nd))"
      using e assms(1) by (simp add: node_invariant_def)
  qed
  with PhaseOne show ?thesis by simp
next
  case PhaseTwo
  have x: "st_x (state nd) \<noteq> None" and d: "decided (state nd) \<noteq> None"
    and run: "consensusRunning nd \<or> killed (state nd)"
    and ob: "phase_one_outbox (outbox nd)"
    and tb: "truthy (decided (state nd)) \<longrightarrow> value_is_bit (st_x (state nd))"
    using assms by (auto simp: node_invariant_def)
  note e = processPhaseTwoMessages_effect [OF x, of cfg coin]
  have "node_invariant (endOfRound (processPhaseTwoMessages cfg coin nd))"
  proof (rule invariant_endOfRound)
    show "st_x (state (processPhaseTwoMessages cfg coin nd)) \<noteq> None"
      using e by simp
    show "decided (state (processPhaseTwoMessages cfg coin nd)) \<noteq> None"
      using e d by auto
    show "killed (state (processPhaseTwoMessages cfg coin nd)) \<or>
          value_is_bit (st_x (state (processPhaseTwoMessages cfg coin nd)))"
      using e by simp
    show "truthy (decided (state (processPhaseTwoMessages cfg coin nd))) \<longrightarrow>
          value_is_bit (st_x (state (processPhaseTwoMessages cfg coin nd)))"
      using e tb by (cases "killed (state nd)") simp_all
    show "consensusRunning (processPhaseTwoMessages cfg coin nd) \<or>
          killed (state (processPhaseTwoMessages cfg coin nd))"
      using e run by simp
    show "phase_one_outbox (outbox (processPhaseTwoMessages cfg coin nd))"
      using e ob by simp
  qed
  with PhaseTwo show ?thesis by simp
qed

lemma invariant_whileLoop:
  assumes "st_x (state nd) \<noteq> None" and "decided (state nd) \<noteq> None"
    and "truthy (decided (state nd)) \<longrightarrow> value_is_bit (st_x (state nd))"
    and "killed (state nd) \<or> truthy (decided (state nd)) \<or> value_is_bit (st_x (state nd))"
    and "consensusRunning nd \<or> killed (state nd)"
    and "phase_one_outbox (outbox nd)"
  shows "node_invariant (whileLoop cfg nd)"
  using assms
  by (auto simp: whileLoop_def runPhaseOne_def node_invariant_def)

lemma invariant_resume:
  assumes "node_invariant nd"
  shows "node_invariant (resume cfg inTime coin nd)"
proof (cases "pc nd")
  case Idle
  with assms show ?thesis by (simp add: resume_def)
next
  case Finished
  with assms show ?thesis by (simp add: resume_def)
next
  case (Broadcasting ph)
  have "node_invariant (nd \<lparr> pc := Waiting ph (st_k (state nd)) \<rparr>)"
    using assms Broadcasting by (cases ph) (auto simp: node_invariant_def)
  moreover have "node_invariant (afterWait cfg coin ph nd)"
    using invariant_afterWait [OF assms] Broadcasting by simp
  ultimately show ?thesis
    using Broadcasting by (simp add: resume_def)
next
  case (Waiting ph k)
  have "node_invariant (afterWait cfg coin ph nd)"
    using invariant_afterWait [OF assms, of ph k] Waiting by simp
  then show ?thesis
    using Waiting assms by (simp add: resume_def)
next
  case Sleeping
  have "node_invariant (whileLoop cfg nd)"
    using assms Sleeping
    by (intro invariant_whileLoop) (auto simp: node_invariant_def)
  then show ?thesis
    using Sleeping by (simp add: resume_def)
qed

lemma invariant_start:
  assumes "node_invariant nd"
  shows "node_invariant (snd (start_handler cfg nd))"
proof (cases "isFaulty cfg \<or> killed (state nd) \<or> consensusRunning nd")
  case True
  with assms show ?thesis by (auto simp: start_handler_def)
next
  case False
  then have idle: "pc nd = Idle"
    using assms by (auto simp: node_invariant_def)
  let ?nd = "nd \<lparr> consensusRunning := True \<rparr>"
  have bit: "value_is_bit (st_x (state nd))" and nt: "\<not> truthy (decided (state nd))"
    using assms idle by (auto simp: node_invariant_def)
  have "node_invariant (startConsensus cfg ?nd)"
  proof (cases "cN cfg = 1 \<and> \<not> isFaulty cfg")
    case True
    then show ?thesis
      using assms bit by (auto simp: startConsensus_def node_invariant_def)
  next
    case other: False
    have "node_invariant (whileLoop cfg ?nd)"
      using assms bit nt by (intro invariant_whileLoop) (auto simp: node_invariant_def)
    with other show ?thesis by (auto simp: startConsensus_def)
  qed
  with False show ?thesis by (simp add: start_handler_def)
qed

lemma control_invariant_killed:
  "control_invariant c s \<Longrightarrow> control_invariant c (s \<lparr> killed := True \<rparr>)"
  by (induction c s rule: control_invariant.induct) simp_all

lemma invariant_step:
  assumes "node_invariant nd"
  shows "node_invariant (step cfg ev nd)"
proof (cases ev)
  case Start
  then show ?thesis using invariant_start [OF assms] by simp
next
  case Stop
  then show ?thesis
    using assms by (auto simp: stop_handler_def node_invariant_def control_invariant_killed)
next
  case (Message b)
  then show ?thesis
    using assms by (auto simp: message_handler_def node_invariant_def split: sum.splits)
next
  case (Resume inTime coin)
  then show ?thesis using invariant_resume [OF assms] by simp
qed (use assms in simp_all)

lemma invariant_run:
  assumes "node_invariant nd"
  shows "node_invariant (run cfg evs nd)"
  using assms by (induction evs arbitrary: nd) (simp_all add: invariant_step)


subsection \<open>Decisions\<close>

lemma control_when_decided:
  "control_invariant c s \<Longrightarrow> truthy (decided s) \<Longrightarrow> c = Sleeping \<or> c = Finished"
  by (induction c s rule: control_invariant.induct) simp_all

lemma frozen_step:
  assumes "node_invariant nd" and "truthy (decided (state nd))"
  shows "decided (state (step cfg ev nd)) = decided (state nd)
       \<and> st_x (state (step cfg ev nd)) = st_x (state nd)"
proof (cases ev)
  case Start
  have "consensusRunning nd \<or> killed (state nd)"
    using assms by (auto simp: node_invariant_def)
  then show ?thesis
    using Start by (auto simp: start_handler_def)
next
  case Stop
  then show ?thesis by (simp add: stop_handler_def)
next
  case (Message b)
  then show ?thesis by (auto simp: message_handler_def split: sum.splits)
next
  case (Resume inTime coin)
  have "control_invariant (pc nd) (state nd)"
    using assms(1) by (simp add: node_invariant_def)
  with assms(2) have "pc nd = Sleeping \<or> pc nd = Finished"
    by (rule control_when_decided [rotated])
  then show ?thesis
    using Resume assms(2) by (auto simp: resume_def whileLoop_def)
qed simp_all

lemma frozen_run:
  assumes "node_invariant nd" and "truthy (decided (state nd))"
  shows "decided (state (run cfg evs nd)) = decided (state nd)
       \<and> st_x (state (run cfg evs nd)) = st_x (state nd)"
  using assms
proof (induction evs arbitrary: nd)
  case Nil
  then show ?case by simp
next
  case (Cons ev evs)
  note f = frozen_step [OF Cons.prems, of cfg ev]
  have "node_invariant (step cfg ev nd)"
    by (rule invariant_step [OF Cons.prems(1)])
  moreover have "truthy (decided (state (step cfg ev nd)))"
    using f Cons.prems(2) by simp
  ultimately show ?case
    using Cons.IH f by simp
qed

text \<open>
  Claim C3. On a node that is not faulty and started from 0 or 1, in every execution
  \<open>decided\<close> is \<open>false\<close> or \<open>true\<close>, and once it is \<open>true\<close> the node's \<open>x\<close> is 0 or 1 and,
  whatever happens afterwards (requests, the driver resuming with its tallies and round
  steps), \<open>decided\<close> stays \<open>true\<close> and \<open>x\<close> keeps its value.
\<close>

theorem decision_is_final:
  assumes "\<not> isFaulty cfg" and "initialValue cfg = V0 \<or> initialValue cfg = V1"
  shows "(decided (state (run cfg evs (initial cfg))) = Some False
          \<or> decided (state (run cfg evs (initial cfg))) = Some True)
       \<and> (decided (state (run cfg evs (initial cfg))) = Some True \<longrightarrow>
            (st_x (state (run cfg evs (initial cfg))) = Some V0
             \<or> st_x (state (run cfg evs (initial cfg))) = Some V1)
            \<and> decided (state (run cfg (evs @ evs') (initial cfg))) = Some True
            \<and> st_x (state (run cfg (evs @ evs') (initial cfg))) =
                st_x (state (run cfg evs (initial cfg))))"
proof -
  let ?s = "run cfg evs (initial cfg)"
  have inv: "node_invariant ?s"
    by (rule invariant_run [OF invariant_initial [OF assms]])
  then have "decided (state ?s) = Some False \<or> decided (state ?s) = Some True"
    by (auto simp: node_invariant_def)
  moreover have "st_x (state ?s) = Some V0 \<or> st_x (state ?s) = Some V1"
    if "decided (state ?s) = Some True"
    using inv that by (simp add: node_invariant_def truthy_def value_is_bit_def)
  moreover have "decided (state (run cfg (evs @ evs') (initial cfg))) = Some True
      \<and> st_x (state (run cfg (evs @ evs') (initial cfg))) = st_x (state ?s)"
    if "decided (state ?s) = Some True"
    using frozen_run [OF inv, of cfg evs'] that by (simp add: run_append truthy_def)
  ultimately show ?thesis by blast
qed

theorem decision_is_final_witness:
  "\<not> isFaulty example_config
   \<and> (initialValue example_config = V0 \<or> initialValue example_config = V1)
   \<and> decided (state (run example_config deciding_run (initial example_config))) = Some True
   \<and> st_x (state (run example_config deciding_run (initial example_config))) = Some V1
   \<and> decided (state (run example_config (deciding_run @ [Resume True False, Start, vote 1 2])
                        (initial example_config))) = Some True
   \<and> st_x (state (run example_config (deciding_run @ [Resume True False, Start, vote 1 2])
                        (initial example_config))) = Some V1"
proof -
  have d: "decided (state (run example_config deciding_run (initial example_config))) = Some True"
    and x: "st_x (state (run example_config deciding_run (initial example_config))) = Some V1"
    by code_simp+
  have c: "\<not> isFaulty example_config"
    "initialValue example_config = V0 \<or> initialValue example_config = V1"
    by (simp_all add: example_config_def)
  from decision_is_final [OF c, of deciding_run "[Resume True False, Start, vote 1 2]"] d x c
  show ?thesis by simp
qed

text \<open>
  Claim C4. On a node that is not faulty and started from 0 or 1, in every execution \<open>x\<close>
  is 0, 1 or \<open>?\<close>; it is 0 or 1 before the first round (\<open>Idle\<close>), when a round has started
  (the driver is at the broadcast of phase 1: \<open>x\<close> has not changed since the test of the
  loop) and when a live node waits for the next round (\<open>Sleeping\<close>); and every phase-1
  request sent carries 0 or 1. The reason is in the rules of the phase-2 tally (lines 260
  to 274), which leave \<open>x\<close> at 0 or 1 whatever the counts: a decision needs \<open>x\<close> to be 0 or 1
  and keeps it, and the adoptions and the coin assign 0 or 1, never \<open>?\<close>.
\<close>

theorem round_start_value:
  assumes "\<not> isFaulty cfg" and "initialValue cfg = V0 \<or> initialValue cfg = V1"
  shows "(st_x (state (run cfg evs (initial cfg))) = Some V0
          \<or> st_x (state (run cfg evs (initial cfg))) = Some V1
          \<or> st_x (state (run cfg evs (initial cfg))) = Some VQ)
       \<and> (pc (run cfg evs (initial cfg)) = Idle
          \<or> pc (run cfg evs (initial cfg)) = Broadcasting PhaseOne
          \<or> pc (run cfg evs (initial cfg)) = Sleeping \<and> \<not> killed (state (run cfg evs (initial cfg)))
          \<longrightarrow> st_x (state (run cfg evs (initial cfg))) = Some V0
              \<or> st_x (state (run cfg evs (initial cfg))) = Some V1)
       \<and> list_all (\<lambda>m. b_phase (snd m) = JNum 1 \<longrightarrow>
                          b_value (snd m) = JNum 0 \<or> b_value (snd m) = JNum 1)
            (outbox (run cfg evs (initial cfg)))
       \<and> (st_x (phaseTwoRules cfg coin c s) = Some V0 \<or> st_x (phaseTwoRules cfg coin c s) = Some V1)
       \<and> (decided (phaseTwoRules cfg coin c s) = Some True \<or> decided (phaseTwoRules cfg coin c s) = decided s)"
proof -
  let ?s = "run cfg evs (initial cfg)"
  have inv: "node_invariant ?s"
    by (rule invariant_run [OF invariant_initial [OF assms]])
  have a: "st_x (state ?s) = Some V0 \<or> st_x (state ?s) = Some V1 \<or> st_x (state ?s) = Some VQ"
  proof -
    from inv obtain v where "st_x (state ?s) = Some v"
      by (auto simp: node_invariant_def)
    then show ?thesis by (cases v) simp_all
  qed
  have b: "st_x (state ?s) = Some V0 \<or> st_x (state ?s) = Some V1"
    if "pc ?s = Idle \<or> pc ?s = Broadcasting PhaseOne \<or> pc ?s = Sleeping \<and> \<not> killed (state ?s)"
    using inv that by (auto simp: node_invariant_def value_is_bit_def)
  have c: "list_all (\<lambda>m. b_phase (snd m) = JNum 1 \<longrightarrow>
                          b_value (snd m) = JNum 0 \<or> b_value (snd m) = JNum 1) (outbox ?s)"
    using inv by (auto simp: node_invariant_def phase_one_outbox_def list_all_iff)
  have d: "st_x (phaseTwoRules cfg coin c s) = Some V0 \<or> st_x (phaseTwoRules cfg coin c s) = Some V1"
    and e: "decided (phaseTwoRules cfg coin c s) = Some True
            \<or> decided (phaseTwoRules cfg coin c s) = decided s"
    by (simp_all add: phaseTwoRules_def)
  from a b c d e show ?thesis by blast
qed

theorem round_start_value_witness:
  "\<not> isFaulty example_config
   \<and> (initialValue example_config = V0 \<or> initialValue example_config = V1)
   \<and> pc (run example_config [Start] (initial example_config)) = Broadcasting PhaseOne
   \<and> st_x (state (run example_config [Start] (initial example_config))) = Some V1
   \<and> st_x (state (run example_config [Start, Resume False True] (initial example_config))) = Some VQ
   \<and> pc (run example_config [Start, Resume False True, Resume False True]
            (initial example_config)) = Sleeping
   \<and> st_x (state (run example_config [Start, Resume False True, Resume False True]
            (initial example_config))) = Some V0"
proof -
  have c: "\<not> isFaulty example_config"
    "initialValue example_config = V0 \<or> initialValue example_config = V1"
    by (simp_all add: example_config_def)
  have p1: "pc (run example_config [Start] (initial example_config)) = Broadcasting PhaseOne"
    and x1: "st_x (state (run example_config [Start] (initial example_config))) = Some V1"
    by code_simp+
  have x2: "st_x (state (run example_config [Start, Resume False True] (initial example_config))) =
            Some VQ"
    by code_simp
  have p3: "pc (run example_config [Start, Resume False True, Resume False True]
            (initial example_config)) = Sleeping"
    and x3: "st_x (state (run example_config [Start, Resume False True, Resume False True]
            (initial example_config))) = Some V0"
    by code_simp+
  from round_start_value [OF c, of "[Start]"] c p1 x1 x2 p3 x3
  show ?thesis by blast
qed

end
